theory Spec2Isabelle
  imports Main "HOL-Library.Sublist"
begin

section \<open>Overview\<close>

text \<open>
  A model of the website cloner's orchestration core: the virtual file tree
  (\<^verbatim>\<open>addFileToSystem\<close>, \<^verbatim>\<open>getFileSystemAsText\<close>), the streaming orchestrator of \<^verbatim>\<open>App.tsx\<close> with
  its user actions and effects, and the job processing of the batch version
  (\<^verbatim>\<open>clonePage\<close> and its \<^verbatim>\<open>processQueue\<close>).

  Conventions.  The state is the record of the \<^verbatim>\<open>useState\<close> variables.  A handler or one
  run of an effect is one function from state to state; an \<^verbatim>\<open>async\<close> function is run to
  its end in one step, as if nothing else happened while it waits (where that matters,
  the parts of it that run without waiting are functions of their own).  What the outside
  world answers during a step (the fetch, the model, the parsing of a line, the
  resolution of a URL) is an argument of the step, so every property holds for all
  answers.  A \<^verbatim>\<open>throw\<close> is a value of type \<open>thrown\<close>, and the \<^verbatim>\<open>catch\<close> that receives it is
  a branch of the function.  Strings are lists of characters.
\<close>

section \<open>The virtual file tree\<close>

text \<open>
  \<^verbatim>\<open>types.ts\<close>: a node is a file with its content or a folder with its children; a
  \<^verbatim>\<open>FileSystem\<close> is a JavaScript object from names to nodes.  The object is modelled by
  the list of its own properties in enumeration order: assigning to an existing name keeps
  the position of that name, assigning to a new name appends it.

  Two things about objects are not in this model.  JavaScript enumerates names that look
  like array indices first; only the order of the flattened text depends on that.  And
  assigning to the name \<^verbatim>\<open>__proto__\<close> creates no property: it replaces the prototype of the
  object, which \<^verbatim>\<open>Object.entries\<close> never lists and through which later reads of other
  names can be answered.  The model is therefore one of trees built from paths without
  a segment \<^verbatim>\<open>__proto__\<close>, and the properties below that are about arbitrary paths say so
  in their hypotheses.  (Every other name an object inherits, such as \<^verbatim>\<open>constructor\<close>, holds a
  function, which the loop of \<^verbatim>\<open>addFileToSystem\<close> treats like a missing name and which an
  assignment shadows by an own property.)
\<close>

datatype FileSystemNode =
    File (content: string)
  | Folder (children: "(string \<times> FileSystemNode) list")

type_synonym FileSystem = "(string \<times> FileSystemNode) list"

text \<open>\<^verbatim>\<open>current[name] = node\<close>, for a name other than \<^verbatim>\<open>__proto__\<close>.\<close>

fun set_prop :: "string \<Rightarrow> FileSystemNode \<Rightarrow> FileSystem \<Rightarrow> FileSystem" where
  "set_prop k v [] = [(k, v)]"
| "set_prop k v ((k', v') # rest) =
     (if k' = k then (k, v) # rest else (k', v') # set_prop k v rest)"

text \<open>\<^verbatim>\<open>path.split('/')\<close>: the empty string splits into one empty segment.\<close>

fun split_on :: "char \<Rightarrow> string \<Rightarrow> string list" where
  "split_on sep [] = [[]]"
| "split_on sep (c # cs) =
     (if c = sep then [] # split_on sep cs
      else (case split_on sep cs of
              w # ws \<Rightarrow> (c # w) # ws
            | [] \<Rightarrow> [[c]]))"

text \<open>\<^verbatim>\<open>path.split('/').filter(p => p)\<close>: the empty string is the only falsy string.\<close>

definition path_parts :: "string \<Rightarrow> string list" where
  "path_parts path = filter (\<lambda>p. p \<noteq> []) (split_on (CHR ''/'') path)"

text \<open>
  The body of \<^verbatim>\<open>addFileToSystem\<close> after the split.  The loop walks all parts but the last,
  replacing whatever is not a folder by an empty folder, and the final assignment stores
  the file under the last part.  With no parts at all the loop does not run and
  \<^verbatim>\<open>parts[parts.length - 1]\<close> is \<^verbatim>\<open>undefined\<close>, which as a property name is the string
  \<^verbatim>\<open>"undefined"\<close>.  The source mutates the folders in place; the model rebuilds them.
\<close>

fun insert_parts :: "string list \<Rightarrow> string \<Rightarrow> FileSystem \<Rightarrow> FileSystem" where
  "insert_parts [] c current = set_prop ''undefined'' (File c) current"
| "insert_parts [name] c current = set_prop name (File c) current"
| "insert_parts (part # rest) c current =
     (case map_of current part of
        Some (Folder ch) \<Rightarrow> set_prop part (Folder (insert_parts rest c ch)) current
      | _ \<Rightarrow> set_prop part (Folder (insert_parts rest c [])) current)"

definition addFileToSystem :: "FileSystem \<Rightarrow> string \<Rightarrow> string \<Rightarrow> FileSystem" where
  "addFileToSystem fs path c = insert_parts (path_parts path) c fs"

text \<open>
  \<^verbatim>\<open>getFileSystemAsText\<close>.  The inner \<^verbatim>\<open>traverse\<close> is modelled with the pairs of path and
  content it visits; \<open>file_text\<close> is the template string pushed for each of them.
\<close>

fun traverse :: "FileSystem \<Rightarrow> string \<Rightarrow> (string \<times> string) list" where
  "traverse [] path = []"
| "traverse ((name, File c) # rest) path =
     ((if path \<noteq> [] then path @ ''/'' @ name else name), c) # traverse rest path"
| "traverse ((name, Folder ch) # rest) path =
     traverse ch (if path \<noteq> [] then path @ ''/'' @ name else name) @ traverse rest path"

definition file_text :: "string \<Rightarrow> string \<Rightarrow> string" where
  "file_text currentPath c =
     ''--- File: '' @ currentPath @ '' ---'' @ [CHR 0x0A] @ [CHR 0x60, CHR 0x60, CHR 0x60]
       @ [CHR 0x0A] @ c @ [CHR 0x0A] @ [CHR 0x60, CHR 0x60, CHR 0x60]"

definition getFileSystemAsText :: "FileSystem \<Rightarrow> string list" where
  "getFileSystemAsText fs = map (\<lambda>(p, c). file_text p c) (traverse fs [])"

subsection \<open>Merging a sequence of files, and reading a path back from the flattened tree\<close>

text \<open>
  Every caller merges the files of a response in array order:
  \<^verbatim>\<open>for (const file of files) addFileToSystem(fs, file.path, file.content)\<close>.
\<close>

definition merge_files :: "FileSystem \<Rightarrow> (string \<times> string) list \<Rightarrow> FileSystem" where
  "merge_files fs files = foldl (\<lambda>fs (p, c). addFileToSystem fs p c) fs files"

text \<open>
  The path that \<^verbatim>\<open>traverse\<close> builds for a list of names, with the same template
  \<^verbatim>\<open>path ? `${path}/${name}` : name\<close>, and the flattened path of an inserted path (its
  non-empty segments joined by slashes).
\<close>

definition join_step :: "string \<Rightarrow> string \<Rightarrow> string" where
  "join_step path name = (if path \<noteq> [] then path @ ''/'' @ name else name)"

definition join_path :: "string list \<Rightarrow> string" where
  "join_path ps = foldl join_step [] ps"

definition normal_path :: "string \<Rightarrow> string" where
  "normal_path p = join_path (path_parts p)"

text \<open>Retrieving \<open>p\<close> by flattening: the contents of all flattened entries whose path is \<open>p\<close>.\<close>

definition flattened_at :: "FileSystem \<Rightarrow> string \<Rightarrow> string list" where
  "flattened_at fs p = map snd (filter (\<lambda>(q, c). q = normal_path p) (traverse fs []))"

text \<open>The names an insertion really walks: a path without segments lands on \<^verbatim>\<open>"undefined"\<close>.\<close>

definition target_parts :: "string \<Rightarrow> string list" where
  "target_parts p = (if path_parts p = [] then [''undefined''] else path_parts p)"

text \<open>The node found by following a list of names from the root.\<close>

fun node_at :: "FileSystem \<Rightarrow> string list \<Rightarrow> FileSystemNode option" where
  "node_at fs [] = None"
| "node_at fs [k] = map_of fs k"
| "node_at fs (k # rest) =
     (case map_of fs k of Some (Folder ch) \<Rightarrow> node_at ch rest | _ \<Rightarrow> None)"

subsection \<open>Auxiliary notions for the proofs about the tree\<close>

text \<open>A name that can come out of the split: not empty and without a slash.\<close>

definition good_name :: "string \<Rightarrow> bool" where
  "good_name n = (n \<noteq> [] \<and> CHR ''/'' \<notin> set n)"

text \<open>The flattening with paths kept as lists of names.\<close>

fun entries :: "FileSystem \<Rightarrow> (string list \<times> string) list" where
  "entries [] = []"
| "entries ((name, File c) # rest) = ([name], c) # entries rest"
| "entries ((name, Folder ch) # rest) =
     map (\<lambda>(ps, c). (name # ps, c)) (entries ch) @ entries rest"

text \<open>Trees as objects really are: no name twice in a folder, every name a good name.\<close>

fun wf_fs :: "FileSystem \<Rightarrow> bool" where
  "wf_fs [] = True"
| "wf_fs ((name, File c) # rest) =
     (good_name name \<and> name \<notin> fst ` set rest \<and> wf_fs rest)"
| "wf_fs ((name, Folder ch) # rest) =
     (good_name name \<and> name \<notin> fst ` set rest \<and> wf_fs ch \<and> wf_fs rest)"

text \<open>The content of the file found by following a list of names.\<close>

fun find_file :: "FileSystem \<Rightarrow> string list \<Rightarrow> string option" where
  "find_file fs [] = None"
| "find_file fs [k] = (case map_of fs k of Some (File c) \<Rightarrow> Some c | _ \<Rightarrow> None)"
| "find_file fs (k # rest) =
     (case map_of fs k of Some (Folder ch) \<Rightarrow> find_file ch rest | _ \<Rightarrow> None)"

section \<open>The orchestrator: state and helpers\<close>

text \<open>
  \<^verbatim>\<open>types.ts\<close>.  \<^verbatim>\<open>LogType.ERROR\<close> is written \<open>LOG_ERROR\<close> here, since \<open>ERROR\<close> is the state.
\<close>

datatype CloningState =
  IDLE | CLONING | AWAITING_USER_INPUT | QUALITY_CHECK | FIXING | COMPLETED | ERROR

datatype LogType = INFO | WARN | LOG_ERROR | SUCCESS | SYSTEM | DEBUG | THOUGHT | NETWORK

text \<open>A log entry; its \<^verbatim>\<open>timestamp: new Date()\<close> is wall-clock time and is left out.\<close>

record AgentLogEntry =
  message :: string
  log_type :: LogType

text \<open>A job of the queue; the screenshot \<^verbatim>\<open>File\<close> is kept as an opaque string.\<close>

record Job =
  url :: string
  screenshot :: "string option"

text \<open>
  What leaves the application: page fetches, asset fetches and the three kinds of model
  call.  The list of them in the state is instrumentation, not a variable of the source.
\<close>

datatype request =
    PageFetch string
  | AssetFetch string
  | ModelStream string
  | ModelClone string
  | ModelReview
  | ModelFix

text \<open>
  The \<^verbatim>\<open>useState\<close> variables of \<^verbatim>\<open>App\<close>.  \<^verbatim>\<open>visitedUrls\<close> is a \<^verbatim>\<open>Set<string>\<close>, kept as the
  list of its members in insertion order.  The presentation state (\<^verbatim>\<open>activeFile\<close>,
  \<^verbatim>\<open>mainHtmlContent\<close>) is written by the handlers but never decides anything about the
  other variables, and is left out.
\<close>

record AppState =
  cloningState :: CloningState
  agentLogs :: "AgentLogEntry list"
  fileSystem :: FileSystem
  isScreenshotModalOpen :: bool
  urlToClone :: string
  authUrl :: string
  cloningQueue :: "Job list"
  visitedUrls :: "string list"
  consoleErrors :: "string list"
  fixAttempts :: nat
  requests :: "request list"

definition initial_state :: AppState where
  "initial_state =
     \<lparr>cloningState = IDLE, agentLogs = [], fileSystem = [], isScreenshotModalOpen = False,
      urlToClone = [], authUrl = [], cloningQueue = [], visitedUrls = [],
      consoleErrors = [], fixAttempts = 0, requests = []\<rparr>"

definition MAX_FIX_ATTEMPTS :: nat where
  "MAX_FIX_ATTEMPTS = 3"

text \<open>The page bound: the literal \<^verbatim>\<open>5\<close> of \<^verbatim>\<open>App.tsx\<close>, \<^verbatim>\<open>MAX_PAGES\<close> in the batch version.\<close>

definition MAX_PAGES :: nat where
  "MAX_PAGES = 5"

definition addLog :: "string \<Rightarrow> LogType \<Rightarrow> AppState \<Rightarrow> AppState" where
  "addLog msg ty st = st\<lparr>agentLogs := agentLogs st @ [\<lparr>message = msg, log_type = ty\<rparr>]\<rparr>"

definition send :: "request list \<Rightarrow> AppState \<Rightarrow> AppState" where
  "send rs st = st\<lparr>requests := requests st @ rs\<rparr>"

text \<open>\<^verbatim>\<open>new Set(prev).add(x)\<close>\<close>

definition set_add :: "string \<Rightarrow> string list \<Rightarrow> string list" where
  "set_add x xs = (if x \<in> set xs then xs else xs @ [x])"

text \<open>A number inside a template string: its decimal digits.\<close>

function show_nat :: "nat \<Rightarrow> string" where
  "show_nat n =
     (if n < 10 then [char_of (48 + n)]
      else show_nat (n div 10) @ [char_of (48 + n mod 10)])"
  by pat_completeness auto
termination
  by (relation "measure id") auto

declare show_nat.simps [simp del]

text \<open>
  \<^verbatim>\<open>String.prototype.trim\<close>, for the white space of ASCII (the other white space of
  JavaScript lies outside ASCII).
\<close>

definition is_space :: "char \<Rightarrow> bool" where
  "is_space c = (c \<in> set [CHR 0x09, CHR 0x0A, CHR 0x0B, CHR 0x0C, CHR 0x0D, CHR 0x20])"

definition trim :: "string \<Rightarrow> string" where
  "trim s = rev (dropWhile is_space (rev (dropWhile is_space s)))"

text \<open>\<^verbatim>\<open>/^(https?:\/\/)/i.test(url)\<close>\<close>

definition lower_char :: "char \<Rightarrow> char" where
  "lower_char c =
     (if 65 \<le> (of_char c :: nat) \<and> (of_char c :: nat) \<le> 90
      then char_of ((of_char c :: nat) + 32) else c)"

definition has_http_scheme :: "string \<Rightarrow> bool" where
  "has_http_scheme u =
     (prefix ''http://'' (map lower_char u) \<or> prefix ''https://'' (map lower_char u))"

text \<open>\<^verbatim>\<open>e.includes(m)\<close>: \<open>m\<close> occurs in \<open>e\<close>.\<close>

fun includes_str :: "string \<Rightarrow> string \<Rightarrow> bool" where
  "includes_str [] m = (m = [])"
| "includes_str (c # cs) m = (prefix m (c # cs) \<or> includes_str cs m)"

text \<open>
  What a \<^verbatim>\<open>catch\<close> receives, and the message the handlers log for it:
  \<^verbatim>\<open>error instanceof Error ? error.message : "<default>"\<close>.
\<close>

datatype thrown = JsError string | NonError

fun error_text :: "string \<Rightarrow> thrown \<Rightarrow> string" where
  "error_text dflt (JsError m) = m"
| "error_text dflt NonError = dflt"

text \<open>
  The answer of \<^verbatim>\<open>fetch\<close>: it throws, or it is a response with a status whose body is then
  read by \<^verbatim>\<open>text()\<close> (which may throw as well).  \<^verbatim>\<open>response.ok\<close> is a status from 200 to
  299.
\<close>

datatype fetch_result =
    FetchThrows thrown
  | Response nat "thrown + string"

definition response_ok :: "nat \<Rightarrow> bool" where
  "response_ok status = (200 \<le> status \<and> status \<le> 299)"

section \<open>The orchestrator: user actions\<close>

text \<open>\<^verbatim>\<open>handleInitiateCloning\<close>; \<open>opens\<close> tells whether \<^verbatim>\<open>window.open\<close> returned.\<close>

definition handleInitiateCloning :: "string \<Rightarrow> bool \<Rightarrow> bool \<Rightarrow> AppState \<Rightarrow> AppState" where
  "handleInitiateCloning rawUrl useScreenshot opens st =
     (if rawUrl = [] \<or> cloningState st \<notin> {IDLE, COMPLETED, ERROR} then st
      else
        let u = trim rawUrl;
            u = (if \<not> has_http_scheme u then ''https://'' @ u else u);
            st = st\<lparr>cloningState := CLONING, agentLogs := [], fileSystem := [],
                    visitedUrls := [], consoleErrors := [], fixAttempts := 0\<rparr>;
            st = addLog ''Initializing Full-Stack Agentic Cloner v6.0 (Streaming)...'' SYSTEM st;
            st = st\<lparr>urlToClone := u\<rparr>
        in if useScreenshot then
             (if opens then st\<lparr>isScreenshotModalOpen := True\<rparr>
              else (addLog (''Could not open new tab for URL: '' @ u
                             @ ''. Please check browser pop-up settings.'') LOG_ERROR st)
                   \<lparr>cloningState := ERROR\<rparr>)
           else st\<lparr>cloningQueue := [\<lparr>url = u, screenshot = None\<rparr>]\<rparr>)"

definition handleScreenshotReady :: "string \<Rightarrow> AppState \<Rightarrow> AppState" where
  "handleScreenshotReady file st =
     st\<lparr>isScreenshotModalOpen := False,
        cloningQueue := [\<lparr>url = urlToClone st, screenshot = Some file\<rparr>]\<rparr>"

definition handleResumeCloning :: "string \<Rightarrow> AppState \<Rightarrow> AppState" where
  "handleResumeCloning nextUrl st =
     (if nextUrl = [] then
        (addLog ''Resuming cancelled. No URL provided.'' WARN st)\<lparr>cloningState := ERROR\<rparr>
      else
        (addLog (''User provided new URL. Resuming cloning process at: '' @ nextUrl) SYSTEM st)
          \<lparr>cloningQueue := cloningQueue st @ [\<lparr>url = nextUrl, screenshot = None\<rparr>],
           authUrl := [], cloningState := CLONING\<rparr>)"

text \<open>The \<^verbatim>\<open>onCancel\<close> of the authentication prompt.\<close>

definition cancelAuth :: "AppState \<Rightarrow> AppState" where
  "cancelAuth st =
     (addLog ''User cancelled authentication. Cloning stopped.'' WARN st)
       \<lparr>cloningState := ERROR\<rparr>"

section \<open>The orchestrator: processing a job in streaming mode (\<^verbatim>\<open>App.tsx\<close>)\<close>

text \<open>
  One record of the model's stream, as \<^verbatim>\<open>handleStreamedAction\<close> switches on it.  An
  object with any other \<^verbatim>\<open>action\<close> is kept with its \<^verbatim>\<open>JSON.stringify\<close> text, which is all
  the handler uses of it.
\<close>

datatype action =
    Thought string
  | FileAction string string
  | AuthWall string
  | NextPage string
  | Complete string
  | UnknownAction string

text \<open>
  Two library calls are parameters of the model.  \<open>parse\<close> is \<^verbatim>\<open>JSON.parse\<close> followed by
  the reading of the record's fields: \<open>None\<close> when anything in the \<^verbatim>\<open>try\<close> block throws.
  \<open>resolve rel base\<close> is \<^verbatim>\<open>new URL(rel, base).href\<close>: \<open>None\<close> when the constructor throws.
\<close>

type_synonym parser = "string \<Rightarrow> action option"
type_synonym resolver = "string \<Rightarrow> string \<Rightarrow> string option"

text \<open>
  \<^verbatim>\<open>handleStreamedAction\<close>, which returns \<^verbatim>\<open>true\<close> to stop.  It is a closure of the effect:
  \<open>visited\<close> is the \<^verbatim>\<open>visitedUrls\<close> of the render in which the effect started (the job's own
  URL is not in it yet), while the queue and the file tree are updated functionally
  (\<^verbatim>\<open>setCloningQueue(prev => ...)\<close>) and so are read from the current state.
\<close>

fun handleStreamedAction ::
  "resolver \<Rightarrow> string list \<Rightarrow> action \<Rightarrow> string \<Rightarrow> AppState \<Rightarrow> bool \<times> AppState" where
  "handleStreamedAction resolve visited (Thought c) currentUrl st =
     (False, addLog c THOUGHT st)"
| "handleStreamedAction resolve visited (FileAction path c) currentUrl st =
     (False, (addLog (''Creating file: '' @ path) INFO st)
               \<lparr>fileSystem := addFileToSystem (fileSystem st) path c\<rparr>)"
| "handleStreamedAction resolve visited (AuthWall m) currentUrl st =
     (True, (addLog (''AI Agent: '' @ [CHR 0x22] @ m @ [CHR 0x22]) WARN st)
              \<lparr>authUrl := currentUrl, cloningState := AWAITING_USER_INPUT\<rparr>)"
| "handleStreamedAction resolve visited (NextPage u) currentUrl st =
     (case resolve u currentUrl of
        None \<Rightarrow> (False, addLog (''AI returned an invalid next page URL: '' @ u) WARN st)
      | Some nextUrl \<Rightarrow>
          (if nextUrl \<notin> set visited
              \<and> nextUrl \<notin> set (map url (cloningQueue st))
              \<and> length (cloningQueue st) + length visited < 5
           then (False, (addLog (''AI queued next page: '' @ nextUrl) INFO st)
                          \<lparr>cloningQueue := cloningQueue st
                                             @ [\<lparr>url = nextUrl, screenshot = None\<rparr>]\<rparr>)
           else (False, st)))"
| "handleStreamedAction resolve visited (Complete m) currentUrl st =
     (False, addLog m SUCCESS st)"
| "handleStreamedAction resolve visited (UnknownAction js) currentUrl st =
     (False, addLog (''Unknown AI action: '' @ js) WARN st)"

text \<open>
  The \<^verbatim>\<open>try { JSON.parse(line); handleStreamedAction(...) } catch\<close> around one line.
\<close>

definition handle_line ::
  "parser \<Rightarrow> resolver \<Rightarrow> string list \<Rightarrow> string \<Rightarrow> string \<Rightarrow> AppState \<Rightarrow> bool \<times> AppState" where
  "handle_line parse resolve visited currentUrl line st =
     (case parse line of
        None \<Rightarrow> (False, addLog (''AI Output (non-JSON): '' @ line) DEBUG st)
      | Some a \<Rightarrow> handleStreamedAction resolve visited a currentUrl st)"

text \<open>
  \<^verbatim>\<open>buffer.indexOf('\n')\<close> with the two \<^verbatim>\<open>substring\<close> calls: the text before the first line
  feed and the text after it.
\<close>

fun next_line :: "string \<Rightarrow> (string \<times> string) option" where
  "next_line [] = None"
| "next_line (c # cs) =
     (if c = CHR 0x0A then Some ([], cs)
      else (case next_line cs of
              None \<Rightarrow> None
            | Some (l, r) \<Rightarrow> Some (c # l, r)))"

text \<open>
  The inner \<^verbatim>\<open>while\<close> loop over the complete lines of the buffer.  The result is
  \<^verbatim>\<open>stopProcessing\<close>, the buffer that is left and the state.
\<close>

function drain_lines ::
  "parser \<Rightarrow> resolver \<Rightarrow> string list \<Rightarrow> string \<Rightarrow> string \<Rightarrow> AppState
     \<Rightarrow> bool \<times> string \<times> AppState" where
  "drain_lines parse resolve visited currentUrl buffer st =
     (case next_line buffer of
        None \<Rightarrow> (False, buffer, st)
      | Some (raw, buffer') \<Rightarrow>
          (if trim raw \<noteq> [] then
             (case handle_line parse resolve visited currentUrl (trim raw) st of
                (True, st') \<Rightarrow> (True, buffer', st')
              | (False, st') \<Rightarrow> drain_lines parse resolve visited currentUrl buffer' st')
           else drain_lines parse resolve visited currentUrl buffer' st))"
  by pat_completeness auto
termination
proof -
  have shorter: "next_line b = Some (l, r) \<Longrightarrow> length r < length b" for b l r
    by (induction b arbitrary: l r) (auto split: if_splits option.splits)
  show ?thesis
    by (relation "measure (\<lambda>(parse, resolve, visited, currentUrl, buffer, st). length buffer)")
      (auto dest: shorter)
qed

declare drain_lines.simps [simp del]

text \<open>
  The \<^verbatim>\<open>for await\<close> loop over the chunks.  The first component tells whether the loop
  asked the stream for a chunk after the last one (it did not if it left by \<^verbatim>\<open>break\<close>);
  then \<^verbatim>\<open>stopProcessing\<close>, the buffer and the state.
\<close>

fun stream_loop ::
  "parser \<Rightarrow> resolver \<Rightarrow> string list \<Rightarrow> string \<Rightarrow> string list \<Rightarrow> bool \<Rightarrow> string \<Rightarrow> AppState
     \<Rightarrow> bool \<times> bool \<times> string \<times> AppState" where
  "stream_loop parse resolve visited currentUrl [] stop buffer st = (True, stop, buffer, st)"
| "stream_loop parse resolve visited currentUrl (chunk # rest) stop buffer st =
     (if stop then (False, stop, buffer, st)
      else (case drain_lines parse resolve visited currentUrl (buffer @ chunk) st of
              (stop', buffer', st') \<Rightarrow>
                stream_loop parse resolve visited currentUrl rest stop' buffer' st'))"

text \<open>
  What the world answers while one job is processed: the page fetch, the asset URLs found
  in the page (the regular expression scan and \<^verbatim>\<open>new URL(assetPath, job.url)\<close>, which may
  throw), \<^verbatim>\<open>fileToBase64\<close> of the screenshot (asked only for a job that has one), the call
  of \<^verbatim>\<open>generateContentStream\<close>, the chunks of the stream, and whether the stream throws
  once its chunks are delivered.  Asset downloads that fail are dropped silently in
  this version.
\<close>

record stream_env =
  page_fetch :: fetch_result
  asset_scan :: "thrown + string list"
  encode_screenshot :: "thrown option"
  dispatch :: "thrown option"
  chunks :: "string list"
  stream_failure :: "thrown option"

text \<open>
  The body of the \<^verbatim>\<open>try\<close> block of \<^verbatim>\<open>processQueue\<close>, written as its four phases, each
  handing the state over to the next: \<open>clone_job\<close> fetches the page, \<open>fetch_assets\<close> finds and
  downloads the assets, \<open>call_model\<close> encodes the screenshot and dispatches the request,
  \<open>read_stream\<close> reads the stream and the text left in the buffer.  \<open>Inl\<close> is what was
  thrown, \<open>Inr\<close> is \<^verbatim>\<open>stopProcessing\<close> at the end of the block.  The state changes made
  before a throw stay.  The return value of the last \<^verbatim>\<open>handleStreamedAction\<close>, the one for
  the text left in the buffer, is dropped as in the source.
\<close>

definition read_stream ::
  "parser \<Rightarrow> resolver \<Rightarrow> stream_env \<Rightarrow> string list \<Rightarrow> Job \<Rightarrow> AppState
     \<Rightarrow> (thrown + bool) \<times> AppState" where
  "read_stream parse resolve env visited job st0 =
     (case stream_loop parse resolve visited (url job) (chunks env) False [] st0 of
        (asked_past_end, stopProcessing, buffer, st) \<Rightarrow>
          (case (if asked_past_end then stream_failure env else None) of
             Some t \<Rightarrow> (Inl t, st)
           | None \<Rightarrow>
               (Inr stopProcessing,
                if trim buffer \<noteq> [] \<and> \<not> stopProcessing
                then snd (handle_line parse resolve visited (url job) (trim buffer) st)
                else st)))"

definition call_model ::
  "parser \<Rightarrow> resolver \<Rightarrow> stream_env \<Rightarrow> string list \<Rightarrow> Job \<Rightarrow> AppState
     \<Rightarrow> (thrown + bool) \<times> AppState" where
  "call_model parse resolve env visited job st0 =
     (case (if screenshot job \<noteq> None then encode_screenshot env else None) of
        Some t \<Rightarrow> (Inl t, st0)
      | None \<Rightarrow>
          let st = send [ModelStream (url job)]
                     (addLog ''Dispatching AI agent. Streaming response...'' SYSTEM st0)
          in (case dispatch env of
                Some t \<Rightarrow> (Inl t, st)
              | None \<Rightarrow> read_stream parse resolve env visited job st))"

definition fetch_assets ::
  "parser \<Rightarrow> resolver \<Rightarrow> stream_env \<Rightarrow> string list \<Rightarrow> Job \<Rightarrow> AppState
     \<Rightarrow> (thrown + bool) \<times> AppState" where
  "fetch_assets parse resolve env visited job st0 =
     (case asset_scan env of
        Inl t \<Rightarrow> (Inl t, st0)
      | Inr assetUrls \<Rightarrow>
          call_model parse resolve env visited job
            (if assetUrls \<noteq> []
             then send (map AssetFetch assetUrls)
                    (addLog (''Found '' @ show_nat (length assetUrls)
                             @ '' assets (CSS/JS). Fetching...'') INFO st0)
             else st0))"

definition clone_job ::
  "parser \<Rightarrow> resolver \<Rightarrow> stream_env \<Rightarrow> string list \<Rightarrow> Job \<Rightarrow> AppState
     \<Rightarrow> (thrown + bool) \<times> AppState" where
  "clone_job parse resolve env visited job st0 =
     (let st = send [PageFetch (url job)] (addLog ''Fetching source code...'' INFO st0)
      in case page_fetch env of
        FetchThrows t \<Rightarrow> (Inl t, st)
      | Response status body \<Rightarrow>
          if \<not> response_ok status
          then (Inl (JsError (''Failed to fetch URL '' @ url job @ ''. Status: ''
                               @ show_nat status @ ''.'')), st)
          else (case body of
            Inl t \<Rightarrow> (Inl t, st)
          | Inr htmlContent \<Rightarrow>
              fetch_assets parse resolve env visited job
                (addLog ''Successfully fetched page source.'' SUCCESS st)))"

text \<open>
  \<^verbatim>\<open>processQueue\<close> of \<^verbatim>\<open>App.tsx\<close>, as one run that nothing interrupts.  The source suspends
  at every \<^verbatim>\<open>await\<close>: before the page fetch, the assets, the model call and each chunk of
  the stream.  The effect depends on \<^verbatim>\<open>cloningState\<close> and \<^verbatim>\<open>cloningQueue\<close>, so React starts it
  again when a \<^verbatim>\<open>nextPage\<close> record changes the queue while the stream is still read; the
  new run finds the page of the first run visited, drops it from the queue and goes on
  to the next job, while the first run keeps its old \<^verbatim>\<open>visitedUrls\<close>.  Such overlapping runs
  are not compositions of this function.  The function describes the runs that do not
  overlap: every run up to its first \<^verbatim>\<open>await\<close>, and every whole run that does not change
  the queue before its stream has ended (a skipped job, a failed fetch, an
  authentication wall, a stream without a complete \<^verbatim>\<open>nextPage\<close> line).  What holds of the
  records of a stream in every schedule is stated on \<open>handleStreamedAction\<close>, \<open>handle_line\<close>
  and \<open>drain_lines\<close>, which are the code that runs between two \<^verbatim>\<open>await\<close>s, for an arbitrary
  state and an arbitrary visited set of the closure.
\<close>

definition processQueue :: "parser \<Rightarrow> resolver \<Rightarrow> stream_env \<Rightarrow> AppState \<Rightarrow> AppState" where
  "processQueue parse resolve env st =
     (if cloningState st \<noteq> CLONING \<or> cloningQueue st = [] then st
      else
        let job = hd (cloningQueue st) in
        if url job \<in> set (visitedUrls st)
        then st\<lparr>cloningQueue := tl (cloningQueue st)\<rparr>
        else
          let visited = visitedUrls st;
              st1 = st\<lparr>visitedUrls := set_add (url job) visited\<rparr>;
              st2 = addLog (''Cloning page ('' @ show_nat (length visited + 1) @ ''/5): ''
                            @ url job) SYSTEM st1
          in (case clone_job parse resolve env visited job st2 of
                (Inl t, st') \<Rightarrow>
                  (addLog (''An error occurred: ''
                           @ error_text ''An unknown error occurred.'' t) LOG_ERROR st')
                    \<lparr>cloningState := ERROR\<rparr>
              | (Inr stopProcessing, st') \<Rightarrow>
                  if stopProcessing then st'
                  else st'\<lparr>cloningQueue := tl (cloningQueue st')\<rparr>))"

section \<open>The orchestrator: quality review, console errors and auto-fix (\<^verbatim>\<open>App.tsx\<close>)\<close>

text \<open>The second effect: an empty queue after at least one page starts the review.\<close>

definition qualityTrigger :: "AppState \<Rightarrow> AppState" where
  "qualityTrigger st =
     (if cloningState st = CLONING \<and> cloningQueue st = [] \<and> visitedUrls st \<noteq> []
      then (addLog (''Initial cloning phase complete. Cloned ''
                    @ show_nat (length (visitedUrls st))
                    @ '' page(s). Starting AI quality review...'') SYSTEM st)
             \<lparr>cloningState := QUALITY_CHECK\<rparr>
      else st)"

text \<open>
  The parsed answer of the review and of the fix call (\<^verbatim>\<open>analysis\<close>, \<^verbatim>\<open>filesToUpdate\<close>); the
  call throws when the request fails or \<^verbatim>\<open>JSON.parse\<close> rejects the text.
\<close>

record update_result =
  analysis :: string
  filesToUpdate :: "(string \<times> string) list"

text \<open>
  The loop over \<^verbatim>\<open>filesToUpdate\<close>: one log line and one \<^verbatim>\<open>addFileToSystem\<close> per file, on a
  copy of the tree that is stored afterwards.
\<close>

fun apply_updates :: "string \<Rightarrow> (string \<times> string) list \<Rightarrow> AppState \<Rightarrow> AppState" where
  "apply_updates what [] st = st"
| "apply_updates what ((path, c) # files) st =
     apply_updates what files
       ((addLog (what @ path) DEBUG st)\<lparr>fileSystem := addFileToSystem (fileSystem st) path c\<rparr>)"

definition handleQualityCheck :: "thrown + update_result \<Rightarrow> AppState \<Rightarrow> AppState" where
  "handleQualityCheck response st0 =
     (let st = send [ModelReview]
                 (addLog ''AI is reviewing code for quality improvements...'' DEBUG st0)
      in case response of
        Inl t \<Rightarrow>
          (addLog (''Failed to perform quality check: ''
                   @ error_text ''An unknown error occurred during quality check.'' t)
             LOG_ERROR st)\<lparr>cloningState := ERROR\<rparr>
      | Inr result \<Rightarrow>
          let st = (if filesToUpdate result = []
                    then addLog ''AI Quality Review: No improvements suggested.'' SYSTEM st
                    else addLog ''AI applied quality improvements.'' SUCCESS
                           (apply_updates ''AI is applying quality improvement to: ''
                              (filesToUpdate result)
                              (addLog (''AI Quality Review: '' @ analysis result) SYSTEM st)))
          in (addLog ''Cloning process complete. Now monitoring for errors.'' SYSTEM st)
               \<lparr>cloningState := COMPLETED\<rparr>)"

text \<open>The third effect runs the review whenever the state is \<^verbatim>\<open>QUALITY_CHECK\<close>.\<close>

definition qualityEffect :: "thrown + update_result \<Rightarrow> AppState \<Rightarrow> AppState" where
  "qualityEffect response st =
     (if cloningState st = QUALITY_CHECK then handleQualityCheck response st else st)"

text \<open>The listener for the \<^verbatim>\<open>console-error\<close> messages of the preview.\<close>

definition handleMessage :: "string \<Rightarrow> AppState \<Rightarrow> AppState" where
  "handleMessage m st =
     (if \<exists>e \<in> set (consoleErrors st). includes_str e m then st
      else st\<lparr>consoleErrors := consoleErrors st @ [m]\<rparr>)"

definition handleAutoFix :: "thrown + update_result \<Rightarrow> string list \<Rightarrow> AppState \<Rightarrow> AppState" where
  "handleAutoFix response errors st0 =
     (let st = st0\<lparr>cloningState := FIXING, fixAttempts := fixAttempts st0 + 1,
                    consoleErrors := []\<rparr>;
          st = addLog (''Analyzing '' @ show_nat (length errors) @ '' console error(s)...'')
                 DEBUG st;
          st = send [ModelFix] st
      in case response of
        Inl t \<Rightarrow>
          (addLog (''Failed to apply fix: ''
                   @ error_text ''An unknown error occurred during auto-fix.'' t)
             LOG_ERROR st)\<lparr>cloningState := ERROR\<rparr>
      | Inr result \<Rightarrow>
          let st = addLog (''AI Analysis: '' @ analysis result) SYSTEM st
          in if filesToUpdate result = []
             then (addLog (''AI analyzed the error but did not provide a file to fix. ''
                           @ ''Stopping auto-fix.'') WARN st)\<lparr>cloningState := ERROR\<rparr>
             else (addLog ''AI proposed a fix. Applied changes and reloading preview.'' SUCCESS
                     (apply_updates ''AI is applying fix to: '' (filesToUpdate result) st))
                    \<lparr>cloningState := COMPLETED\<rparr>)"

text \<open>
  The last effect: a fix attempt while attempts remain, the final \<^verbatim>\<open>ERROR\<close> once they are
  used up.
\<close>

definition autoFixEffect :: "thrown + update_result \<Rightarrow> AppState \<Rightarrow> AppState" where
  "autoFixEffect response st =
     (if consoleErrors st \<noteq> []
         \<and> (cloningState st = COMPLETED \<or> cloningState st = ERROR)
         \<and> fixAttempts st < MAX_FIX_ATTEMPTS
      then handleAutoFix response (consoleErrors st)
             (addLog (''Detected '' @ show_nat (length (consoleErrors st))
                      @ '' console error(s). Attempting to auto-fix... (Attempt ''
                      @ show_nat (fixAttempts st + 1) @ ''/'' @ show_nat MAX_FIX_ATTEMPTS
                      @ '')'') SYSTEM st)
      else if consoleErrors st \<noteq> [] \<and> fixAttempts st \<ge> MAX_FIX_ATTEMPTS
              \<and> cloningState st \<noteq> FIXING
      then (addLog (''Max auto-fix attempts reached. ''
                    @ ''Please fix the remaining errors manually.'') WARN st)
             \<lparr>cloningState := ERROR\<rparr>
      else st)"

section \<open>The orchestrator as a machine of events (\<^verbatim>\<open>App.tsx\<close>)\<close>

text \<open>
  Everything that can happen to the application: the user's actions, each guarded by what
  the page shows in the state (the screenshot dialog only while it is open, the
  authentication prompt only in \<^verbatim>\<open>AWAITING_USER_INPUT\<close>), the message of the preview,
  and a run of each effect with the answers of the outside world.  React runs an effect
  when its dependencies change; here an effect may run at any time, which allows every
  schedule React can produce.
\<close>

datatype event =
    InitiateCloning string bool bool
  | ScreenshotReady string
  | ScreenshotCancel
  | ResumeCloning string
  | CancelAuth
  | ConsoleError string
  | RunProcessQueue stream_env
  | RunQualityTrigger
  | RunQualityCheck "thrown + update_result"
  | RunAutoFix "thrown + update_result"

fun step :: "parser \<Rightarrow> resolver \<Rightarrow> event \<Rightarrow> AppState \<Rightarrow> AppState" where
  "step parse resolve (InitiateCloning rawUrl useScreenshot opens) st =
     handleInitiateCloning rawUrl useScreenshot opens st"
| "step parse resolve (ScreenshotReady file) st =
     (if isScreenshotModalOpen st then handleScreenshotReady file st else st)"
| "step parse resolve ScreenshotCancel st =
     (if isScreenshotModalOpen st then st\<lparr>isScreenshotModalOpen := False\<rparr> else st)"
| "step parse resolve (ResumeCloning nextUrl) st =
     (if cloningState st = AWAITING_USER_INPUT then handleResumeCloning nextUrl st else st)"
| "step parse resolve CancelAuth st =
     (if cloningState st = AWAITING_USER_INPUT then cancelAuth st else st)"
| "step parse resolve (ConsoleError m) st = handleMessage m st"
| "step parse resolve (RunProcessQueue env) st = processQueue parse resolve env st"
| "step parse resolve RunQualityTrigger st = qualityTrigger st"
| "step parse resolve (RunQualityCheck response) st = qualityEffect response st"
| "step parse resolve (RunAutoFix response) st = autoFixEffect response st"

text \<open>A session: the events applied one after the other.\<close>

definition run :: "parser \<Rightarrow> resolver \<Rightarrow> event list \<Rightarrow> AppState \<Rightarrow> AppState" where
  "run parse resolve evs st = foldl (\<lambda>s e. step parse resolve e s) st evs"


section \<open>The orchestrator: processing a job in batch mode (\<^verbatim>\<open>unnamed/part_001\<close>)\<close>

text \<open>The response object of the batch schema, after \<^verbatim>\<open>JSON.parse\<close>.\<close>

record clone_result =
  thoughtProcess :: string
  isAuthWall :: bool
  messageForUser :: string
  files :: "(string \<times> string) list"
  backendFiles :: "(string \<times> string) list"
  nextPageUrl :: "string option"

text \<open>
  The model call of the batch version: \<^verbatim>\<open>generateContent\<close> throws, or \<^verbatim>\<open>JSON.parse\<close> of its
  text throws, or there is a response object.
\<close>

datatype model_answer =
    CallThrows thrown
  | ParseThrows thrown
  | Parsed clone_result

text \<open>How the download of one asset ended; each ending has its own log line here.\<close>

datatype asset_outcome = AssetFetched | AssetFailed | AssetThrows string

record batch_env =
  b_page_fetch :: fetch_result
  b_asset_scan :: "thrown + (string \<times> asset_outcome) list"
  b_encode_screenshot :: "thrown option"
  b_answer :: model_answer

fun log_asset :: "string \<times> asset_outcome \<Rightarrow> AppState \<Rightarrow> AppState" where
  "log_asset (assetUrl, AssetFetched) st = addLog (''Fetched asset: '' @ assetUrl) SUCCESS st"
| "log_asset (assetUrl, AssetFailed) st =
     addLog (''Failed to fetch asset: '' @ assetUrl) WARN st"
| "log_asset (assetUrl, AssetThrows m) st =
     addLog (''Error fetching asset '' @ assetUrl @ '': '' @ m) LOG_ERROR st"

text \<open>The loop of \<^verbatim>\<open>clonePage\<close> over all files of the response.\<close>

fun add_files :: "(string \<times> string) list \<Rightarrow> FileSystem \<times> AppState \<Rightarrow> FileSystem \<times> AppState" where
  "add_files [] (fs, st) = (fs, st)"
| "add_files ((path, c) # others) (fs, st) =
     add_files others
       (addFileToSystem fs path c, addLog (''Created/Updated file: '' @ path) INFO st)"

text \<open>
  \<^verbatim>\<open>clonePage(job, currentFileSystem)\<close>, written as its three phases, each handing the state
  over to the next: \<open>clonePage\<close> guards, marks the URL visited and fetches the page,
  \<open>clone_assets\<close> downloads the assets and calls the model, \<open>use_result\<close> works through the
  response object.  \<open>visited\<close> is the \<^verbatim>\<open>visitedUrls\<close> of the render the closure belongs to.
  \<open>Inl\<close> is what was thrown; \<open>Inr\<close> is the returned object
  \<^verbatim>\<open>{newFileSystem, nextUrl, stop}\<close>.
\<close>

definition use_result ::
  "resolver \<Rightarrow> clone_result \<Rightarrow> Job \<Rightarrow> FileSystem \<Rightarrow> AppState
     \<Rightarrow> (thrown + FileSystem \<times> string option \<times> bool) \<times> AppState" where
  "use_result resolve result job currentFileSystem st0 =
     (let st = (if thoughtProcess result \<noteq> []
                then addLog (thoughtProcess result) THOUGHT st0 else st0);
          st = addLog (''AI Agent: '' @ [CHR 0x22] @ messageForUser result @ [CHR 0x22])
                 (if isAuthWall result then WARN else SYSTEM) st
      in if isAuthWall result
         then (Inr (currentFileSystem, None, True),
               st\<lparr>authUrl := url job, cloningState := AWAITING_USER_INPUT\<rparr>)
         else
           let allFiles = files result @ backendFiles result;
               (newFileSystem, st) =
                 (if allFiles = []
                  then (currentFileSystem,
                        addLog ''AI did not return any files for this page.'' WARN st)
                  else add_files allFiles
                         (currentFileSystem,
                          addLog (''Reconstructing file system for '' @ url job @ ''.'')
                            INFO st))
           in (case nextPageUrl result of
                 None \<Rightarrow> (Inr (newFileSystem, None, False), st)
               | Some u \<Rightarrow>
                   if u = [] then (Inr (newFileSystem, None, False), st)
                   else (case resolve u (url job) of
                     None \<Rightarrow>
                       (Inr (newFileSystem, None, False),
                        addLog (''AI returned an invalid next page URL: '' @ u) WARN st)
                   | Some nextUrl \<Rightarrow> (Inr (newFileSystem, Some nextUrl, False), st))))"

definition clone_assets ::
  "resolver \<Rightarrow> batch_env \<Rightarrow> Job \<Rightarrow> FileSystem \<Rightarrow> AppState
     \<Rightarrow> (thrown + FileSystem \<times> string option \<times> bool) \<times> AppState" where
  "clone_assets resolve env job currentFileSystem st0 =
     (case b_asset_scan env of
        Inl t \<Rightarrow> (Inl t, st0)
      | Inr assets \<Rightarrow>
          let st = (if assets \<noteq> []
                    then fold log_asset assets
                           (send (map (AssetFetch \<circ> fst) assets)
                              (addLog (''Found '' @ show_nat (length assets)
                                       @ '' assets (CSS/JS). Fetching...'') INFO st0))
                    else st0);
              st = addLog
                     (if screenshot job \<noteq> None
                      then ''Dispatching Multimodal AI agent with full asset context.''
                      else ''Dispatching HTML-only AI agent with full asset context.'')
                     SYSTEM st
          in (case (if screenshot job \<noteq> None then b_encode_screenshot env else None) of
                Some t \<Rightarrow> (Inl t, st)
              | None \<Rightarrow>
                  let st = send [ModelClone (url job)] st
                  in (case b_answer env of
                        CallThrows t \<Rightarrow> (Inl t, st)
                      | ParseThrows t \<Rightarrow>
                          (Inl t, addLog ''AI analysis complete. Processing results.''
                                    SUCCESS st)
                      | Parsed result \<Rightarrow>
                          use_result resolve result job currentFileSystem
                            (addLog ''AI analysis complete. Processing results.''
                               SUCCESS st))))"

definition clonePage ::
  "resolver \<Rightarrow> batch_env \<Rightarrow> string list \<Rightarrow> Job \<Rightarrow> FileSystem \<Rightarrow> AppState
     \<Rightarrow> (thrown + FileSystem \<times> string option \<times> bool) \<times> AppState" where
  "clonePage resolve env visited job currentFileSystem st0 =
     (if url job \<in> set visited \<or> length visited \<ge> MAX_PAGES
      then (Inr (currentFileSystem, None, False), st0)
      else
        let st = st0\<lparr>visitedUrls := set_add (url job) (visitedUrls st0)\<rparr>;
            st = addLog (''Cloning page ('' @ show_nat (length visited + 1) @ ''/''
                         @ show_nat MAX_PAGES @ ''): '' @ url job) SYSTEM st;
            st = addLog (''Fetching source code for '' @ url job @ ''...'') INFO st;
            st = send [PageFetch (url job)] st
        in case b_page_fetch env of
          FetchThrows t \<Rightarrow> (Inl t, st)
        | Response status body \<Rightarrow>
            if \<not> response_ok status
            then (Inl (JsError (''Failed to fetch URL '' @ url job @ ''. Status: ''
                                 @ show_nat status @ ''.'')), st)
            else (case body of
              Inl t \<Rightarrow> (Inl t, st)
            | Inr htmlContent \<Rightarrow>
                clone_assets resolve env job currentFileSystem
                  (addLog ''Successfully fetched page source.'' SUCCESS st)))"

text \<open>
  \<^verbatim>\<open>processQueue\<close> of the batch version.  \<^verbatim>\<open>cloningQueue.shift()\<close> takes the job out of the
  state's own array, so the queue has lost its head on every path; \<^verbatim>\<open>visitedUrls\<close> is the
  value of the render.  The next page is queued when it is new to that set and to the
  remaining queue; there is no count in this test.
\<close>

definition processQueue_batch :: "resolver \<Rightarrow> batch_env \<Rightarrow> AppState \<Rightarrow> AppState" where
  "processQueue_batch resolve env st0 =
     (if cloningState st0 = CLONING \<and> cloningQueue st0 \<noteq> [] then
        let job = hd (cloningQueue st0);
            remaining = tl (cloningQueue st0);
            visited = visitedUrls st0;
            st = st0\<lparr>cloningQueue := remaining\<rparr>
        in if url job \<in> set visited then st
           else (case clonePage resolve env visited job (fileSystem st) st of
             (Inl t, st') \<Rightarrow>
               (addLog (''An error occurred: ''
                        @ error_text ''An unknown error occurred.'' t) LOG_ERROR st')
                 \<lparr>cloningState := ERROR\<rparr>
           | (Inr (newFileSystem, nextUrl, stop), st') \<Rightarrow>
               let st' = st'\<lparr>fileSystem := newFileSystem\<rparr>
               in if stop then st'
                  else
                    let queued = (case nextUrl of
                                    None \<Rightarrow> None
                                  | Some n \<Rightarrow>
                                      if n \<noteq> [] \<and> n \<notin> set visited
                                         \<and> n \<notin> set (map url remaining)
                                      then Some n else None);
                        st' = (case queued of
                                 None \<Rightarrow> st'
                               | Some n \<Rightarrow>
                                   addLog (''AI identified next page to clone: '' @ n) INFO st');
                        newQueue = (case queued of
                                      None \<Rightarrow> remaining
                                    | Some n \<Rightarrow> remaining @ [\<lparr>url = n, screenshot = None\<rparr>]);
                        st' = (if newQueue = [] \<or> length visited \<ge> 5
                               then (addLog (''Cloning process complete. Cloned ''
                                             @ show_nat (length visited + 1)
                                             @ '' page(s). Now monitoring for errors.'')
                                       SUCCESS st')\<lparr>cloningState := COMPLETED\<rparr>
                               else st')
                    in st'\<lparr>cloningQueue := newQueue\<rparr>)
      else st0)"

section \<open>Auxiliary notions for the proofs about the orchestrator\<close>

text \<open>The pages fetched so far, in order.\<close>

fun page_urls :: "request list \<Rightarrow> string list" where
  "page_urls [] = []"
| "page_urls (PageFetch u # rs) = u # page_urls rs"
| "page_urls (r # rs) = page_urls rs"

definition page_fetches :: "AppState \<Rightarrow> string list" where
  "page_fetches st = page_urls (requests st)"

text \<open>The part of the state that reading a stream never touches.\<close>

definition untouched_by_stream ::
  "AppState \<Rightarrow> string list \<times> nat \<times> request list \<times> string list \<times> bool \<times> string" where
  "untouched_by_stream st =
     (visitedUrls st, fixAttempts st, requests st, consoleErrors st,
      isScreenshotModalOpen st, urlToClone st)"

text \<open>What the processing of a job, after its page fetch, leaves alone.\<close>

definition kept_by_job ::
  "AppState \<Rightarrow> string list \<times> nat \<times> string list \<times> bool \<times> string \<times> string list" where
  "kept_by_job st =
     (visitedUrls st, fixAttempts st, consoleErrors st, isScreenshotModalOpen st,
      urlToClone st, page_fetches st)"

section \<open>The enqueue rule as the specification words it, and concrete inputs\<close>


text \<open>
  Inputs for the worked examples.  The resolver returns absolute URLs as they are.  The
  parser reads a one-letter tag for the kind of record, the rest of the line being its
  text; it stands for \<^verbatim>\<open>JSON.parse\<close> on lines like \<^verbatim>\<open>{"action":"authWall","message":...}\<close>.
\<close>

definition echo_resolver :: resolver where
  "echo_resolver rel base = (if rel = [] then None else Some rel)"

definition demo_parser :: parser where
  "demo_parser l =
     (case l of
        [] \<Rightarrow> None
      | c # rest \<Rightarrow>
          if c = CHR ''W'' then Some (AuthWall rest)
          else if c = CHR ''N'' then Some (NextPage rest)
          else if c = CHR ''T'' then Some (Thought rest)
          else None)"

definition job_of :: "string \<Rightarrow> Job" where
  "job_of u = \<lparr>url = u, screenshot = None\<rparr>"

text \<open>A state in the middle of a crawl, with the given queue and visited set.\<close>

definition cloning_state :: "string list \<Rightarrow> string list \<Rightarrow> AppState" where
  "cloning_state queue visited =
     initial_state\<lparr>cloningState := CLONING, cloningQueue := map job_of queue,
                    visitedUrls := visited\<rparr>"

text \<open>A page that is fetched without trouble and has no assets, with the given stream.\<close>

definition page_env :: "string list \<Rightarrow> stream_env" where
  "page_env cs =
     \<lparr>page_fetch = Response 200 (Inr ''<html></html>''), asset_scan = Inr [],
      encode_screenshot = None, dispatch = None, chunks = cs, stream_failure = None\<rparr>"

definition batch_page_env :: "clone_result \<Rightarrow> batch_env" where
  "batch_page_env r =
     \<lparr>b_page_fetch = Response 200 (Inr ''<html></html>''), b_asset_scan = Inr [],
      b_encode_screenshot = None, b_answer = Parsed r\<rparr>"



text \<open>The line of an authentication wall, and a stream made of that line, terminated.\<close>

definition wall_line :: string where
  "wall_line = ''WPlease sign in.''"

definition wall_env :: stream_env where
  "wall_env = page_env [wall_line @ [CHR 0x0A]]"

text \<open>
  A session in which six pages in a row are authentication walls and the user resumes
  each time with the next URL.
\<close>

definition six_walls :: "event list" where
  "six_walls =
     [InitiateCloning ''a.test/1'' False True, RunProcessQueue wall_env,
      ResumeCloning ''https://a.test/2'', RunProcessQueue wall_env, RunProcessQueue wall_env,
      ResumeCloning ''https://a.test/3'', RunProcessQueue wall_env, RunProcessQueue wall_env,
      ResumeCloning ''https://a.test/4'', RunProcessQueue wall_env, RunProcessQueue wall_env,
      ResumeCloning ''https://a.test/5'', RunProcessQueue wall_env, RunProcessQueue wall_env,
      ResumeCloning ''https://a.test/6'', RunProcessQueue wall_env, RunProcessQueue wall_env]"


text \<open>
  A session that clones one page, passes the review, and then sees a console error after
  each of three fixes; the fourth error arrives with the attempts used up.
\<close>

definition fix_answer :: "thrown + update_result" where
  "fix_answer = Inr \<lparr>analysis = ''patched'', filesToUpdate = [(''public/app.js'', ''ok'')]\<rparr>"

definition three_fixes :: "event list" where
  "three_fixes =
     [InitiateCloning ''a.test/1'' False True, RunProcessQueue (page_env []),
      RunQualityTrigger, RunQualityCheck (Inr \<lparr>analysis = ''fine'', filesToUpdate = []\<rparr>),
      ConsoleError ''e1'', RunAutoFix fix_answer,
      ConsoleError ''e2'', RunAutoFix fix_answer,
      ConsoleError ''e3'', RunAutoFix fix_answer,
      ConsoleError ''e4'']"

section \<open>Properties of the file tree\<close>

lemma split_on_slashes:
  "set path \<subseteq> {sep} \<Longrightarrow> set (split_on sep path) \<subseteq> {[]}"
  by (induction path) auto

lemma path_parts_slashes: "set path \<subseteq> {CHR ''/''} \<Longrightarrow> path_parts path = []"
  unfolding path_parts_def using split_on_slashes [of path "CHR ''/''"]
  by (auto simp: filter_empty_conv)

lemma path_parts_abc: "path_parts ''a/b/c.txt'' = [''a'', ''b'', ''c.txt'']"
  by (simp add: path_parts_def)

lemma traverse_entries:
  "traverse fs path = map (\<lambda>(ps, c). (foldl join_step path ps, c)) (entries fs)"
  by (induction fs path rule: traverse.induct) (auto simp: join_step_def)

lemma foldl_join_nonempty:
  "p \<noteq> [] \<Longrightarrow> foldl join_step p ns = p @ concat (map (\<lambda>n. CHR ''/'' # n) ns)"
  by (induction ns arbitrary: p) (auto simp: join_step_def)

lemma join_path_Cons:
  "q \<noteq> [] \<Longrightarrow> join_path (q # ns) = q @ concat (map (\<lambda>n. CHR ''/'' # n) ns)"
  by (simp add: join_path_def join_step_def foldl_join_nonempty)

lemma split_on_no_sep: "sep \<notin> set q \<Longrightarrow> split_on sep q = [q]"
  by (induction q) auto

lemma split_on_append: "sep \<notin> set q \<Longrightarrow> split_on sep (q @ sep # s) = q # split_on sep s"
  by (induction q) auto

lemma split_on_tail:
  "\<forall>n \<in> set ns. CHR ''/'' \<notin> set n \<Longrightarrow> CHR ''/'' \<notin> set q \<Longrightarrow>
   split_on (CHR ''/'') (q @ concat (map (\<lambda>n. CHR ''/'' # n) ns)) = q # ns"
proof (induction ns arbitrary: q)
  case Nil
  then show ?case by (simp add: split_on_no_sep)
next
  case (Cons n ns)
  then show ?case using split_on_append [of "CHR ''/''" q] by simp
qed

lemma split_join:
  "ps \<noteq> [] \<Longrightarrow> \<forall>n \<in> set ps. good_name n \<Longrightarrow> split_on (CHR ''/'') (join_path ps) = ps"
  by (cases ps) (auto simp: join_path_Cons split_on_tail good_name_def)

lemma join_path_inj:
  assumes "ps \<noteq> []" "\<forall>n \<in> set ps. good_name n" "qs \<noteq> []" "\<forall>n \<in> set qs. good_name n"
    and "join_path ps = join_path qs"
  shows "ps = qs"
  using assms split_join by metis

lemma split_on_good: "\<forall>w \<in> set (split_on sep s). sep \<notin> set w"
  by (induction s) (auto split: list.splits)

lemma path_parts_good: "\<forall>n \<in> set (path_parts p). good_name n"
  using split_on_good [of "CHR ''/''" p] by (auto simp: path_parts_def good_name_def)

lemma map_fst_set_prop:
  "map fst (set_prop k v fs) = (if k \<in> set (map fst fs) then map fst fs else map fst fs @ [k])"
  by (induction fs) (auto simp del: set_map intro: rev_image_eqI)

lemma keys_set_prop: "fst ` set (set_prop k v fs) = insert k (fst ` set fs)"
proof -
  have "set (map fst (set_prop k v fs)) = insert k (set (map fst fs))"
    unfolding map_fst_set_prop by auto
  then show ?thesis by simp
qed

lemma wf_fs_Cons:
  "wf_fs ((name, node) # rest) =
     (good_name name \<and> name \<notin> fst ` set rest \<and>
      (case node of File c \<Rightarrow> True | Folder ch \<Rightarrow> wf_fs ch) \<and> wf_fs rest)"
  by (cases node) auto

lemma entries_Cons:
  "entries ((name, node) # rest) =
     (case node of File c \<Rightarrow> [([name], c)]
      | Folder ch \<Rightarrow> map (\<lambda>(ps, c). (name # ps, c)) (entries ch)) @ entries rest"
  by (cases node) auto

lemma wf_set_prop:
  "wf_fs fs \<Longrightarrow> good_name k \<Longrightarrow> (case v of File c \<Rightarrow> True | Folder ch \<Rightarrow> wf_fs ch) \<Longrightarrow>
   wf_fs (set_prop k v fs)"
proof (induction fs)
  case Nil
  then show ?case by (cases v) auto
next
  case (Cons a fs)
  obtain name node where a: "a = (name, node)" by (cases a)
  show ?case using Cons unfolding a
    by (auto simp: wf_fs_Cons keys_set_prop simp del: wf_fs.simps)
qed

lemma wf_map_of_Folder:
  "wf_fs fs \<Longrightarrow> map_of fs k = Some (Folder ch) \<Longrightarrow> wf_fs ch"
proof (induction fs)
  case Nil
  then show ?case by simp
next
  case (Cons a fs)
  obtain name node where a: "a = (name, node)" by (cases a)
  show ?case using Cons unfolding a
    by (auto simp: wf_fs_Cons simp del: wf_fs.simps split: if_splits)
qed

lemma wf_insert_parts:
  "wf_fs fs \<Longrightarrow> \<forall>n \<in> set ps. good_name n \<Longrightarrow> wf_fs (insert_parts ps c fs)"
proof (induction ps c fs rule: insert_parts.induct)
  case (1 c current)
  then show ?case by (simp add: wf_set_prop good_name_def)
next
  case (2 name c current)
  then show ?case by (simp add: wf_set_prop)
next
  case (3 part v va c current)
  show ?case
  proof (cases "map_of current part")
    case None
    then show ?thesis using 3 by (simp add: wf_set_prop)
  next
    case (Some node)
    show ?thesis
    proof (cases node)
      case (File x)
      then show ?thesis using 3 Some by (simp add: wf_set_prop)
    next
      case (Folder ch)
      then show ?thesis using 3 Some wf_map_of_Folder [of current part ch]
        by (simp add: wf_set_prop)
    qed
  qed
qed

lemma entries_nonempty: "(qs, d) \<in> set (entries fs) \<Longrightarrow> qs \<noteq> [] \<and> hd qs \<in> fst ` set fs"
  by (induction fs rule: entries.induct) auto

lemma entries_good:
  "wf_fs fs \<Longrightarrow> (qs, d) \<in> set (entries fs) \<Longrightarrow> \<forall>n \<in> set qs. good_name n"
  by (induction fs arbitrary: qs rule: entries.induct) auto

lemma entries_distinct: "wf_fs fs \<Longrightarrow> distinct (map fst (entries fs))"
proof (induction fs rule: entries.induct)
  case 1
  then show ?case by simp
next
  case (2 name c rest)
  have "\<And>b. ([name], b) \<notin> set (entries rest)"
    using entries_nonempty [of "[name]" _ rest] 2(2) by auto
  then show ?case using 2 by (auto simp: image_iff)
next
  case (3 name ch rest)
  have inj: "inj (\<lambda>ps. name # ps)" by (simp add: inj_def)
  have m: "map fst (map (\<lambda>(ps, c). (name # ps, c)) (entries ch)) =
           map (\<lambda>ps. name # ps) (map fst (entries ch))"
    by (simp add: case_prod_unfold comp_def)
  have d1: "distinct (map fst (map (\<lambda>(ps, c). (name # ps, c)) (entries ch)))"
    unfolding m using 3 by (simp add: distinct_map inj_def inj_on_def)
  have d2: "distinct (map fst (entries rest))" using 3 by simp
  have disj: "\<And>qs d d'. (qs, d) \<in> set (entries rest) \<Longrightarrow> hd qs \<noteq> name"
    using entries_nonempty [of _ _ rest] 3(3) by auto
  show ?case using d1 d2 disj by (fastforce simp: case_prod_unfold)
qed

lemma map_of_set_prop: "map_of (set_prop k v fs) = (map_of fs)(k \<mapsto> v)"
  by (induction fs) auto

lemma find_file_empty: "find_file [] qs = None"
  by (induction "[] :: FileSystem" qs rule: find_file.induct) auto

lemma find_file_insert_parts:
  "ps \<noteq> [] \<Longrightarrow> find_file (insert_parts ps c fs) qs =
     (if qs = ps then Some c
      else if prefix qs ps \<or> prefix ps qs then None
      else find_file fs qs)"
proof (induction ps c fs arbitrary: qs rule: insert_parts.induct)
  case (1 c current)
  then show ?case by simp
next
  case (2 name c current)
  show ?case
  proof (cases qs)
    case Nil
    then show ?thesis by simp
  next
    case (Cons k qs')
    then show ?thesis by (cases qs') (auto simp: map_of_set_prop)
  qed
next
  case (3 part v va c current)
  show ?case
  proof (cases qs)
    case Nil
    then show ?thesis by simp
  next
    case (Cons k qs')
    show ?thesis
    proof (cases qs')
      case Nil
      then show ?thesis using Cons
        by (auto simp: map_of_set_prop split: option.splits FileSystemNode.splits)
    next
      case (Cons q' qs'')
      show ?thesis
      proof (cases "map_of current part")
        case None
        then show ?thesis using \<open>qs = k # qs'\<close> Cons 3
          by (auto simp: map_of_set_prop find_file_empty)
      next
        case (Some node)
        then show ?thesis using \<open>qs = k # qs'\<close> Cons 3
          by (cases node) (auto simp: map_of_set_prop find_file_empty)
      qed
    qed
  qed
qed

lemma find_file_entries:
  "wf_fs fs \<Longrightarrow> (qs, d) \<in> set (entries fs) \<longleftrightarrow> find_file fs qs = Some d"
proof (induction fs arbitrary: qs rule: entries.induct)
  case 1
  then show ?case by (simp add: find_file_empty)
next
  case (2 name c rest)
  have hdrest: "\<And>d. (qs, d) \<in> set (entries rest) \<Longrightarrow> hd qs \<noteq> name \<and> qs \<noteq> []"
    using entries_nonempty [of qs _ rest] 2(2) by auto
  have IH: "(qs, d) \<in> set (entries rest) \<longleftrightarrow> find_file rest qs = Some d"
    using 2 by simp
  show ?case
  proof (cases qs)
    case Nil
    then show ?thesis using hdrest by auto
  next
    case (Cons k qs')
    then show ?thesis using hdrest IH by (cases qs') auto
  qed
next
  case (3 name ch rest)
  have hdrest: "\<And>d. (qs, d) \<in> set (entries rest) \<Longrightarrow> hd qs \<noteq> name \<and> qs \<noteq> []"
    using entries_nonempty [of qs _ rest] 3(3) by auto
  have IHr: "(qs, d) \<in> set (entries rest) \<longleftrightarrow> find_file rest qs = Some d"
    using 3 by simp
  have IHc: "\<And>qs'. (qs', d) \<in> set (entries ch) \<longleftrightarrow> find_file ch qs' = Some d"
    using 3 by simp
  have nonemp: "\<And>d. ([], d) \<notin> set (entries ch)"
    using entries_nonempty [of "[]" _ ch] by auto
  show ?case
  proof (cases qs)
    case Nil
    then show ?thesis using hdrest by auto
  next
    case (Cons k qs')
    show ?thesis
    proof (cases qs')
      case Nil
      then show ?thesis using Cons hdrest IHr nonemp by auto
    next
      case (Cons q' qs'')
      then show ?thesis using \<open>qs = k # qs'\<close> hdrest IHr IHc by auto
    qed
  qed
qed

lemma insert_parts_target: "insert_parts (path_parts p) c fs = insert_parts (target_parts p) c fs"
  by (simp add: target_parts_def)

lemma target_parts_good: "\<forall>n \<in> set (target_parts p). good_name n"
  using path_parts_good [of p] by (auto simp: target_parts_def good_name_def)

lemma wf_addFile: "wf_fs fs \<Longrightarrow> wf_fs (addFileToSystem fs p c)"
  unfolding addFileToSystem_def by (simp add: wf_insert_parts path_parts_good)

lemma wf_merge_files: "wf_fs fs \<Longrightarrow> wf_fs (merge_files fs fl)"
  unfolding merge_files_def
  by (induction fl arbitrary: fs) (auto simp: wf_addFile)

lemma merge_files_append: "merge_files fs (xs @ ys) = merge_files (merge_files fs xs) ys"
  by (simp add: merge_files_def)

lemma find_file_addFile_same:
  "path_parts p \<noteq> [] \<Longrightarrow> find_file (addFileToSystem fs p c) (path_parts p) = Some c"
  unfolding addFileToSystem_def by (simp add: find_file_insert_parts)

lemma find_file_addFile_other:
  assumes "\<not> prefix (target_parts q) ps" "\<not> prefix ps (target_parts q)"
  shows "find_file (addFileToSystem fs q d) ps = find_file fs ps"
proof -
  have ne: "target_parts q \<noteq> []" by (simp add: target_parts_def)
  have neq: "ps \<noteq> target_parts q" using assms by auto
  show ?thesis unfolding addFileToSystem_def insert_parts_target
    using assms neq by (simp add: find_file_insert_parts [OF ne])
qed

lemma find_file_merge_other:
  "\<forall>(q, d) \<in> set post. \<not> prefix (target_parts q) ps \<and> \<not> prefix ps (target_parts q) \<Longrightarrow>
   find_file (merge_files fs post) ps = find_file fs ps"
proof (induction post arbitrary: fs)
  case Nil
  then show ?case by (simp add: merge_files_def)
next
  case (Cons a post)
  obtain q d where a: "a = (q, d)" by (cases a)
  have "find_file (merge_files (addFileToSystem fs q d) post) ps
        = find_file (addFileToSystem fs q d) ps"
    using Cons by simp
  also have "\<dots> = find_file fs ps"
    using Cons.prems a by (simp add: find_file_addFile_other)
  finally show ?case by (simp add: merge_files_def a)
qed

lemma filter_unique:
  "distinct (map fst xs) \<Longrightarrow> (k, v) \<in> set xs \<Longrightarrow>
   map snd (filter (\<lambda>(q, c). q = k) xs) = [v]"
proof (induction xs)
  case Nil
  then show ?case by simp
next
  case (Cons x xs)
  obtain q c where x: "x = (q, c)" by (cases x)
  have none: "q = k \<Longrightarrow> filter (\<lambda>(q, c). q = k) xs = []"
    using Cons.prems(1) x by (auto simp: filter_empty_conv image_iff)
  show ?case using Cons x none by (auto simp: image_iff)
qed

lemma flattened_at_find_file:
  assumes wf: "wf_fs fs" and ne: "path_parts p \<noteq> []"
    and ff: "find_file fs (path_parts p) = Some c"
  shows "flattened_at fs p = [c]"
proof -
  let ?ps = "path_parts p"
  have good: "\<forall>n \<in> set ?ps. good_name n" by (rule path_parts_good)
  have eq: "\<And>qs d. (qs, d) \<in> set (entries fs) \<Longrightarrow> (join_path qs = join_path ?ps) = (qs = ?ps)"
    using join_path_inj [OF _ _ ne good] entries_good [OF wf] entries_nonempty [of _ _ fs]
    by blast
  have "flattened_at fs p =
        map snd (filter (\<lambda>(q, c). q = join_path ?ps)
                   (map (\<lambda>(qs, c). (join_path qs, c)) (entries fs)))"
    by (simp add: flattened_at_def normal_path_def traverse_entries join_path_def)
  also have "\<dots> = map snd (filter (\<lambda>(qs, c). join_path qs = join_path ?ps) (entries fs))"
    by (simp add: filter_map comp_def case_prod_unfold)
  also have "filter (\<lambda>(qs, c). join_path qs = join_path ?ps) (entries fs)
             = filter (\<lambda>(qs, c). qs = ?ps) (entries fs)"
    by (rule filter_cong) (auto simp: eq)
  also have "map snd \<dots> = [c]"
    using filter_unique [OF entries_distinct [OF wf]] find_file_entries [OF wf] ff by blast
  finally show ?thesis .
qed

lemma node_at_empty: "node_at [] qs = None"
  by (induction "[] :: FileSystem" qs rule: node_at.induct) auto

lemma node_at_insert_prefix:
  "pre \<noteq> [] \<Longrightarrow> strict_prefix pre ps \<Longrightarrow> \<exists>ch. node_at (insert_parts ps c fs) pre = Some (Folder ch)"
proof (induction ps c fs arbitrary: pre rule: insert_parts.induct)
  case (1 c current)
  then show ?case by simp
next
  case (2 name c current)
  then show ?case by (cases pre) (auto simp: strict_prefix_def)
next
  case (3 part v va c current)
  obtain k pre' where pre: "pre = k # pre'" using 3(4) by (cases pre) auto
  have k: "k = part" and sp: "strict_prefix pre' (v # va)"
    using 3(5) pre by (auto simp: strict_prefix_def)
  show ?case
  proof (cases pre')
    case Nil
    then show ?thesis using pre k
      by (auto simp: map_of_set_prop split: option.splits FileSystemNode.splits)
  next
    case (Cons k' pre'')
    then show ?thesis using pre k sp 3(1,2,3)
      by (auto simp: map_of_set_prop split: option.splits FileSystemNode.splits)
  qed
qed

subsection \<open>Claims about the file tree\<close>

text \<open>
  C3 (as amended).  The paths here have no segment \<^verbatim>\<open>__proto__\<close>, the one name whose
  assignment creates no property.  Into the empty tree of a fresh session merge any files
  \<open>pre\<close>, then content \<open>c\<close> at a path \<open>p\<close> that has a non-empty segment, then any files
  \<open>post\<close> none of which walks through \<open>p\<close> or stops on the way to \<open>p\<close> (segment by segment,
  neither path is a prefix of the other).  Flattening the result has exactly one entry at
  \<open>p\<close>, with content \<open>c\<close>: earlier writes to \<open>p\<close> are overwritten, unrelated later writes do
  not disturb it.  Moreover, once \<open>p\<close> has been inserted after any files \<open>pre\<close>, every proper
  non-empty prefix of the segments of \<open>p\<close> leads to a folder: what was a file there has
  been replaced, what was missing has been created.
\<close>

theorem last_write_wins:
  "(path_parts p \<noteq> [] \<longrightarrow>
    (\<forall>(q, d) \<in> set (pre @ [(p, c)] @ post). ''__proto__'' \<notin> set (path_parts q)) \<longrightarrow>
    (\<forall>(q, d) \<in> set post. \<not> prefix (target_parts q) (path_parts p)
                          \<and> \<not> prefix (path_parts p) (target_parts q)) \<longrightarrow>
    flattened_at (merge_files [] (pre @ [(p, c)] @ post)) p = [c])
   \<and> ((\<forall>(q, d) \<in> set (pre @ [(p, c)]). ''__proto__'' \<notin> set (path_parts q)) \<longrightarrow>
      (\<forall>dir. dir \<noteq> [] \<and> strict_prefix dir (path_parts p) \<longrightarrow>
         (\<exists>ch. node_at (merge_files [] (pre @ [(p, c)])) dir = Some (Folder ch))))"
proof (intro conjI impI allI)
  assume ne: "path_parts p \<noteq> []"
    and post: "\<forall>(q, d) \<in> set post. \<not> prefix (target_parts q) (path_parts p)
                          \<and> \<not> prefix (path_parts p) (target_parts q)"
  let ?fs1 = "merge_files [] pre"
  let ?fs2 = "addFileToSystem ?fs1 p c"
  have m: "merge_files [] (pre @ [(p, c)] @ post) = merge_files ?fs2 post"
    by (simp add: merge_files_def)
  have wf: "wf_fs (merge_files ?fs2 post)"
    by (simp add: wf_merge_files wf_addFile)
  have "find_file (merge_files ?fs2 post) (path_parts p) = find_file ?fs2 (path_parts p)"
    using post by (rule find_file_merge_other)
  also have "\<dots> = Some c" using ne by (rule find_file_addFile_same)
  finally show "flattened_at (merge_files [] (pre @ [(p, c)] @ post)) p = [c]"
    unfolding m using flattened_at_find_file [OF wf ne] by simp
next
  fix dir
  assume "dir \<noteq> [] \<and> strict_prefix dir (path_parts p)"
  moreover have "merge_files [] (pre @ [(p, c)]) = addFileToSystem (merge_files [] pre) p c"
    by (simp add: merge_files_def)
  ultimately show "\<exists>ch. node_at (merge_files [] (pre @ [(p, c)])) dir = Some (Folder ch)"
    unfolding addFileToSystem_def using node_at_insert_prefix by metis
qed

lemma path_parts_examples:
  "path_parts ''a/b'' = [''a'', ''b'']" "path_parts ''c'' = [''c'']" "path_parts ''a'' = [''a'']"
  by (simp_all add: path_parts_def)

theorem last_write_wins_witness:
  "path_parts ''a/b'' \<noteq> []
   \<and> ''__proto__'' \<notin> set (path_parts ''a'') \<and> ''__proto__'' \<notin> set (path_parts ''a/b'')
   \<and> ''__proto__'' \<notin> set (path_parts ''c'')
   \<and> \<not> prefix (target_parts ''c'') (path_parts ''a/b'')
   \<and> \<not> prefix (path_parts ''a/b'') (target_parts ''c'')
   \<and> flattened_at
        (merge_files [] ([(''a'', ''x''), (''a/b'', ''old'')] @ [(''a/b'', ''new'')] @ [(''c'', ''z'')]))
        ''a/b'' = [''new'']
   \<and> [''a''] \<noteq> [] \<and> strict_prefix [''a''] (path_parts ''a/b'')
   \<and> (\<exists>ch. node_at (merge_files [] ([(''a'', ''x'')] @ [(''a/b'', ''new'')])) [''a'']
              = Some (Folder ch))"
proof -
  have h1: "path_parts ''a/b'' \<noteq> []" by (simp add: path_parts_examples)
  have h0: "''__proto__'' \<notin> set (path_parts ''a'')" "''__proto__'' \<notin> set (path_parts ''a/b'')"
    "''__proto__'' \<notin> set (path_parts ''c'')"
    by (simp_all add: path_parts_examples)
  have h2: "\<not> prefix (target_parts ''c'') (path_parts ''a/b'')
            \<and> \<not> prefix (path_parts ''a/b'') (target_parts ''c'')"
    by (simp add: target_parts_def path_parts_examples)
  then have h2': "\<forall>(q, d) \<in> set [(''c'', ''z'')]. \<not> prefix (target_parts q) (path_parts ''a/b'')
                          \<and> \<not> prefix (path_parts ''a/b'') (target_parts q)"
    by simp
  have h3: "[''a''] \<noteq> [] \<and> strict_prefix [''a''] (path_parts ''a/b'')"
    by (simp add: path_parts_examples strict_prefix_def)
  have p1: "\<forall>(q, d) \<in> set ([(''a'', ''x''), (''a/b'', ''old'')] @ [(''a/b'', ''new'')]
                            @ [(''c'', ''z'')]). ''__proto__'' \<notin> set (path_parts q)"
    using h0 by simp
  have p2: "\<forall>(q, d) \<in> set ([(''a'', ''x'')] @ [(''a/b'', ''new'')]).
              ''__proto__'' \<notin> set (path_parts q)"
    using h0 by simp
  note inst1 = last_write_wins [where p = "''a/b''" and pre = "[(''a'', ''x''), (''a/b'', ''old'')]"
      and c = "''new''" and post = "[(''c'', ''z'')]"]
  note inst2 = last_write_wins [where p = "''a/b''" and pre = "[(''a'', ''x'')]"
      and c = "''new''" and post = "[]"]
  from inst1 h1 p1 h2' have c1: "flattened_at
        (merge_files [] ([(''a'', ''x''), (''a/b'', ''old'')] @ [(''a/b'', ''new'')] @ [(''c'', ''z'')]))
        ''a/b'' = [''new'']"
    by blast
  from inst2 p2 h3 have c2: "\<exists>ch. node_at (merge_files [] ([(''a'', ''x'')] @ [(''a/b'', ''new'')]))
        [''a''] = Some (Folder ch)"
    by blast
  show ?thesis using h0 h1 h2 h3 c1 c2 by blast
qed

text \<open>
  C3 as stated fails: after \<^verbatim>\<open>a\<close> has been written, writing \<^verbatim>\<open>a/b\<close> turns \<^verbatim>\<open>a\<close> into a
  folder, and the flattened tree has no entry for \<^verbatim>\<open>a\<close> any more, although the last
  (and only) insertion at \<^verbatim>\<open>a\<close> had content \<^verbatim>\<open>x\<close>.
\<close>

theorem last_write_lost_counterexample:
  "flattened_at (merge_files [] [(''a'', ''x''), (''a/b'', ''y'')]) ''a'' = []
   \<and> flattened_at (merge_files [] [(''a'', ''x''), (''a/b'', ''y'')]) ''a'' \<noteq> [''x'']"
  by (simp add: flattened_at_def merge_files_def addFileToSystem_def path_parts_def
      normal_path_def join_path_def join_step_def)

text \<open>
  C9.  Inserting \<^verbatim>\<open>a/b/c.txt\<close> with content \<open>c\<close> into the empty tree gives the folder \<^verbatim>\<open>a\<close>
  holding the folder \<^verbatim>\<open>b\<close> holding the file, and flattening that tree to text gives exactly
  one entry: the header line with the path \<^verbatim>\<open>a/b/c.txt\<close>, then the content \<open>c\<close> between two
  fences of three backquotes.
\<close>

theorem insert_then_flatten_roundtrip:
  "addFileToSystem [] ''a/b/c.txt'' c
     = [(''a'', Folder [(''b'', Folder [(''c.txt'', File c)])])]
   \<and> getFileSystemAsText (addFileToSystem [] ''a/b/c.txt'' c)
     = [''--- File: a/b/c.txt ---'' @ [CHR 0x0A, CHR 0x60, CHR 0x60, CHR 0x60, CHR 0x0A]
          @ c @ [CHR 0x0A, CHR 0x60, CHR 0x60, CHR 0x60]]"
  by (simp add: getFileSystemAsText_def file_text_def addFileToSystem_def path_parts_abc)

text \<open>
  C10.  For a path without any non-empty segment (the empty string, or slashes only)
  \<^verbatim>\<open>addFileToSystem\<close> has no failing branch: the result is the tree with the file stored
  at the root under the name \<^verbatim>\<open>undefined\<close>, whatever the tree and the content were.
\<close>

theorem empty_path_lands_on_undefined:
  "set path \<subseteq> {CHR ''/''} \<Longrightarrow>
   addFileToSystem fs path c = set_prop ''undefined'' (File c) fs
   \<and> map_of (addFileToSystem fs path c) ''undefined'' = Some (File c)"
  by (simp add: addFileToSystem_def path_parts_slashes map_of_set_prop)

theorem empty_path_lands_on_undefined_witness:
  "set ''//'' \<subseteq> {CHR ''/''}
   \<and> addFileToSystem [(''index.html'', File ''h'')] ''//'' ''x''
       = [(''index.html'', File ''h''), (''undefined'', File ''x'')]
   \<and> addFileToSystem [] [] ''x'' = [(''undefined'', File ''x'')]"
  using empty_path_lands_on_undefined [of "''//''" "[(''index.html'', File ''h'')]" "''x''"]
    empty_path_lands_on_undefined [of "[]" "[]" "''x''"]
  by simp

section \<open>Properties of the orchestrator\<close>

lemma addLog_fields [simp]:
  "cloningState (addLog m ty st) = cloningState st"
  "fileSystem (addLog m ty st) = fileSystem st"
  "isScreenshotModalOpen (addLog m ty st) = isScreenshotModalOpen st"
  "urlToClone (addLog m ty st) = urlToClone st"
  "authUrl (addLog m ty st) = authUrl st"
  "cloningQueue (addLog m ty st) = cloningQueue st"
  "visitedUrls (addLog m ty st) = visitedUrls st"
  "consoleErrors (addLog m ty st) = consoleErrors st"
  "fixAttempts (addLog m ty st) = fixAttempts st"
  "requests (addLog m ty st) = requests st"
  "agentLogs (addLog m ty st) = agentLogs st @ [\<lparr>message = m, log_type = ty\<rparr>]"
  by (simp_all add: addLog_def)

lemma send_fields [simp]:
  "cloningState (send rs st) = cloningState st"
  "fileSystem (send rs st) = fileSystem st"
  "isScreenshotModalOpen (send rs st) = isScreenshotModalOpen st"
  "urlToClone (send rs st) = urlToClone st"
  "authUrl (send rs st) = authUrl st"
  "cloningQueue (send rs st) = cloningQueue st"
  "visitedUrls (send rs st) = visitedUrls st"
  "consoleErrors (send rs st) = consoleErrors st"
  "fixAttempts (send rs st) = fixAttempts st"
  "agentLogs (send rs st) = agentLogs st"
  "requests (send rs st) = requests st @ rs"
  by (simp_all add: send_def)

lemma handleStreamedAction_untouched:
  "untouched_by_stream (snd (handleStreamedAction resolve visited a u st)) = untouched_by_stream st"
  by (cases a) (auto simp: untouched_by_stream_def split: option.splits)

lemma handle_line_untouched:
  "untouched_by_stream (snd (handle_line parse resolve visited u line st)) = untouched_by_stream st"
  by (auto simp: handle_line_def handleStreamedAction_untouched split: option.splits)
     (simp add: untouched_by_stream_def)

lemma drain_lines_untouched:
  "untouched_by_stream (snd (snd (drain_lines parse resolve visited u buffer st)))
     = untouched_by_stream st"
proof (induction parse resolve visited u buffer st rule: drain_lines.induct)
  case (1 parse resolve visited currentUrl buffer st)
  show ?case
  proof (cases "next_line buffer")
    case None
    then show ?thesis by (simp add: drain_lines.simps)
  next
    case (Some p)
    obtain raw buffer' where p: "p = (raw, buffer')" by (cases p)
    show ?thesis
    proof (cases "trim raw = []")
      case True
      then show ?thesis using 1(2) Some p by (simp add: drain_lines.simps)
    next
      case False
      obtain b st' where h: "handle_line parse resolve visited currentUrl (trim raw) st = (b, st')"
        by (cases "handle_line parse resolve visited currentUrl (trim raw) st")
      have st': "untouched_by_stream st' = untouched_by_stream st"
        using handle_line_untouched [of parse resolve visited currentUrl "trim raw" st] h by simp
      show ?thesis
      proof (cases b)
        case True
        then show ?thesis using Some p False h st' by (simp add: drain_lines.simps)
      next
        case bf: False
        have "untouched_by_stream (snd (snd (drain_lines parse resolve visited currentUrl buffer' st')))
              = untouched_by_stream st'"
          using 1(1) [OF Some p [symmetric] False h [symmetric]] bf by simp
        then show ?thesis using Some p False h st' bf by (simp add: drain_lines.simps)
      qed
    qed
  qed
qed

lemma stream_loop_untouched:
  "untouched_by_stream (snd (snd (snd (stream_loop parse resolve visited u cs stop buffer st))))
     = untouched_by_stream st"
proof (induction cs arbitrary: stop buffer st)
  case Nil
  then show ?case by simp
next
  case (Cons c cs)
  show ?case
  proof (cases stop)
    case True
    then show ?thesis by simp
  next
    case False
    obtain s' b' st' where d: "drain_lines parse resolve visited u (buffer @ c) st = (s', b', st')"
      by (cases "drain_lines parse resolve visited u (buffer @ c) st") auto
    have "untouched_by_stream st' = untouched_by_stream st"
      using drain_lines_untouched [of parse resolve visited u "buffer @ c" st] d by simp
    then show ?thesis using False d Cons by simp
  qed
qed

lemma untouched_addLog [simp]: "untouched_by_stream (addLog m ty st) = untouched_by_stream st"
  by (simp add: untouched_by_stream_def)

lemma page_urls_append [simp]: "page_urls (xs @ ys) = page_urls xs @ page_urls ys"
  by (induction xs rule: page_urls.induct) auto

lemma page_urls_assets [simp]: "page_urls (map AssetFetch us) = []"
  by (induction us) auto

lemma kept_addLog [simp]: "kept_by_job (addLog m ty st) = kept_by_job st"
  by (simp add: kept_by_job_def page_fetches_def)

lemma kept_send [simp]: "page_urls rs = [] \<Longrightarrow> kept_by_job (send rs st) = kept_by_job st"
  by (simp add: kept_by_job_def page_fetches_def)

lemma kept_untouched:
  "untouched_by_stream st' = untouched_by_stream st \<Longrightarrow> kept_by_job st' = kept_by_job st"
  by (simp add: kept_by_job_def untouched_by_stream_def page_fetches_def)

lemma read_stream_kept:
  "kept_by_job (snd (read_stream parse resolve env visited job st)) = kept_by_job st"
proof -
  define L where "L = stream_loop parse resolve visited (url job) (chunks env) False [] st"
  obtain a s b st1 where L: "L = (a, s, b, st1)" by (cases L) auto
  have u1: "untouched_by_stream st1 = untouched_by_stream st"
    using stream_loop_untouched [of parse resolve visited "url job" "chunks env" False "[]" st] L
    unfolding L_def by simp
  have u2: "untouched_by_stream (snd (handle_line parse resolve visited (url job) (trim b) st1))
            = untouched_by_stream st"
    using handle_line_untouched u1 by simp
  have k1: "kept_by_job st1 = kept_by_job st" using u1 by (rule kept_untouched)
  have k2: "kept_by_job (snd (handle_line parse resolve visited (url job) (trim b) st1))
            = kept_by_job st" using u2 by (rule kept_untouched)
  have r: "snd (read_stream parse resolve env visited job st) = st1
           \<or> snd (read_stream parse resolve env visited job st)
               = snd (handle_line parse resolve visited (url job) (trim b) st1)"
    unfolding read_stream_def L_def [symmetric] L by (simp split: option.splits)
  then show ?thesis using k1 k2 by metis
qed

lemma call_model_kept:
  "kept_by_job (snd (call_model parse resolve env visited job st)) = kept_by_job st"
  unfolding call_model_def Let_def
  by (auto simp: read_stream_kept split: option.splits)

lemma fetch_assets_kept:
  "kept_by_job (snd (fetch_assets parse resolve env visited job st)) = kept_by_job st"
  unfolding fetch_assets_def
  by (auto simp: call_model_kept split: sum.splits)

lemma clone_job_kept:
  "kept_by_job (snd (clone_job parse resolve env visited job st))
     = kept_by_job (send [PageFetch (url job)] st)"
  unfolding clone_job_def Let_def
  by (auto simp: fetch_assets_kept split: fetch_result.splits sum.splits)
     (simp_all add: kept_by_job_def page_fetches_def)

lemma kept_by_job_updates [simp]:
  "kept_by_job (st\<lparr>cloningState := cs\<rparr>) = kept_by_job st"
  "kept_by_job (st\<lparr>cloningQueue := q\<rparr>) = kept_by_job st"
  "kept_by_job (st\<lparr>fileSystem := fs\<rparr>) = kept_by_job st"
  "kept_by_job (st\<lparr>authUrl := a\<rparr>) = kept_by_job st"
  "kept_by_job (st\<lparr>agentLogs := l\<rparr>) = kept_by_job st"
  by (simp_all add: kept_by_job_def page_fetches_def)

lemma processQueue_idle:
  "cloningState st \<noteq> CLONING \<or> cloningQueue st = [] \<Longrightarrow> processQueue parse resolve env st = st"
  by (simp add: processQueue_def)

lemma processQueue_skip:
  "cloningState st = CLONING \<Longrightarrow> cloningQueue st = job # rest \<Longrightarrow>
   url job \<in> set (visitedUrls st) \<Longrightarrow>
   processQueue parse resolve env st = st\<lparr>cloningQueue := rest\<rparr>"
  by (simp add: processQueue_def)

lemma finish_kept:
  "kept_by_job (case X of
       (Inl t, st') \<Rightarrow> (addLog (f t) LOG_ERROR st')\<lparr>cloningState := ERROR\<rparr>
     | (Inr stopProcessing, st') \<Rightarrow>
         if stopProcessing then st' else st'\<lparr>cloningQueue := tl (cloningQueue st')\<rparr>)
   = kept_by_job (snd X)"
  by (cases X) (auto split: sum.splits)

lemma processQueue_kept:
  assumes "cloningState st = CLONING" "cloningQueue st = job # rest"
    "url job \<notin> set (visitedUrls st)"
  shows "kept_by_job (processQueue parse resolve env st)
         = kept_by_job (send [PageFetch (url job)]
                          (st\<lparr>visitedUrls := visitedUrls st @ [url job]\<rparr>))"
proof -
  have "kept_by_job (processQueue parse resolve env st)
        = kept_by_job (send [PageFetch (url job)]
            (addLog (''Cloning page ('' @ show_nat (length (visitedUrls st) + 1)
                     @ ''/5): '' @ url job) SYSTEM
               (st\<lparr>visitedUrls := visitedUrls st @ [url job]\<rparr>)))"
    using assms unfolding processQueue_def Let_def
    by (simp add: finish_kept clone_job_kept set_add_def)
  then show ?thesis by (simp add: kept_by_job_def page_fetches_def)
qed

lemma kept_by_job_fields:
  "kept_by_job a = kept_by_job b \<Longrightarrow>
     visitedUrls a = visitedUrls b \<and> fixAttempts a = fixAttempts b
     \<and> consoleErrors a = consoleErrors b \<and> isScreenshotModalOpen a = isScreenshotModalOpen b
     \<and> urlToClone a = urlToClone b \<and> page_fetches a = page_fetches b"
  by (simp add: kept_by_job_def)

lemma processQueue_cases:
  "processQueue parse resolve env st = st
   \<or> (\<exists>job rest. cloningState st = CLONING \<and> cloningQueue st = job # rest
        \<and> url job \<in> set (visitedUrls st)
        \<and> processQueue parse resolve env st = st\<lparr>cloningQueue := rest\<rparr>)
   \<or> (\<exists>job rest. cloningState st = CLONING \<and> cloningQueue st = job # rest
        \<and> url job \<notin> set (visitedUrls st)
        \<and> kept_by_job (processQueue parse resolve env st)
            = kept_by_job (send [PageFetch (url job)]
                             (st\<lparr>visitedUrls := visitedUrls st @ [url job]\<rparr>)))"
proof (cases "cloningState st \<noteq> CLONING \<or> cloningQueue st = []")
  case True
  then show ?thesis using processQueue_idle by blast
next
  case False
  then obtain job rest where q: "cloningQueue st = job # rest" and c: "cloningState st = CLONING"
    by (cases "cloningQueue st") auto
  show ?thesis
  proof (cases "url job \<in> set (visitedUrls st)")
    case True
    then show ?thesis using processQueue_skip [OF c q] q c by blast
  next
    case False
    then show ?thesis using processQueue_kept [OF c q] q c by blast
  qed
qed

lemma processQueue_fixAttempts:
  "fixAttempts (processQueue parse resolve env st) = fixAttempts st"
  using processQueue_cases [of parse resolve env st]
  by (elim disjE exE conjE) (auto dest!: kept_by_job_fields)

lemma apply_updates_fields [simp]:
  "fixAttempts (apply_updates what fl st) = fixAttempts st"
  "visitedUrls (apply_updates what fl st) = visitedUrls st"
  "requests (apply_updates what fl st) = requests st"
  by (induction what fl st rule: apply_updates.induct) auto

lemma handleQualityCheck_fields [simp]:
  "fixAttempts (handleQualityCheck response st) = fixAttempts st"
  "visitedUrls (handleQualityCheck response st) = visitedUrls st"
  "page_fetches (handleQualityCheck response st) = page_fetches st"
  by (auto simp: handleQualityCheck_def Let_def page_fetches_def split: sum.splits)

lemma handleAutoFix_fields [simp]:
  "fixAttempts (handleAutoFix response errs st) = fixAttempts st + 1"
  "visitedUrls (handleAutoFix response errs st) = visitedUrls st"
  "page_fetches (handleAutoFix response errs st) = page_fetches st"
  by (auto simp: handleAutoFix_def Let_def page_fetches_def split: sum.splits)

lemma autoFixEffect_fixAttempts:
  "fixAttempts st \<le> MAX_FIX_ATTEMPTS \<Longrightarrow>
   fixAttempts (autoFixEffect response st) \<le> MAX_FIX_ATTEMPTS"
  by (auto simp: autoFixEffect_def)

lemma step_fixAttempts:
  assumes "fixAttempts st \<le> MAX_FIX_ATTEMPTS"
  shows "fixAttempts (step parse resolve e st) \<le> MAX_FIX_ATTEMPTS"
proof (cases e)
  case (InitiateCloning rawUrl useScreenshot opens)
  then show ?thesis using assms
    by (auto simp: handleInitiateCloning_def Let_def)
next
  case (RunProcessQueue env)
  then show ?thesis using assms by (simp add: processQueue_fixAttempts)
next
  case (RunAutoFix response)
  then show ?thesis using assms by (simp add: autoFixEffect_fixAttempts)
qed (insert assms, auto simp: handleScreenshotReady_def handleResumeCloning_def cancelAuth_def
      handleMessage_def qualityTrigger_def qualityEffect_def)

lemma run_fixAttempts:
  "fixAttempts st \<le> MAX_FIX_ATTEMPTS \<Longrightarrow>
   fixAttempts (run parse resolve evs st) \<le> MAX_FIX_ATTEMPTS"
  unfolding run_def
  by (induction evs arbitrary: st) (auto simp: step_fixAttempts)

subsection \<open>Sessions, the batch phases, single records and the example runs\<close>


lemma page_fetches_simps [simp]:
  "page_fetches (addLog m ty st) = page_fetches st"
  "page_fetches (st\<lparr>cloningState := cs\<rparr>) = page_fetches st"
  "page_fetches (st\<lparr>cloningQueue := q\<rparr>) = page_fetches st"
  "page_fetches (st\<lparr>isScreenshotModalOpen := b\<rparr>) = page_fetches st"
  "page_fetches (st\<lparr>consoleErrors := es\<rparr>) = page_fetches st"
  "page_fetches (st\<lparr>authUrl := a\<rparr>) = page_fetches st"
  "page_fetches (st\<lparr>visitedUrls := v\<rparr>) = page_fetches st"
  "page_fetches (send rs st) = page_fetches st @ page_urls rs"
  by (simp_all add: page_fetches_def)






lemma log_asset_fields [simp]:
  "cloningState (log_asset a st) = cloningState st"
  "fileSystem (log_asset a st) = fileSystem st"
  "authUrl (log_asset a st) = authUrl st"
  "cloningQueue (log_asset a st) = cloningQueue st"
  "visitedUrls (log_asset a st) = visitedUrls st"
  by (cases a; cases "snd a"; simp)+

lemma fold_log_asset_fields [simp]:
  "cloningState (fold log_asset as st) = cloningState st"
  "fileSystem (fold log_asset as st) = fileSystem st"
  "authUrl (fold log_asset as st) = authUrl st"
  "cloningQueue (fold log_asset as st) = cloningQueue st"
  "visitedUrls (fold log_asset as st) = visitedUrls st"
  by (induction as arbitrary: st; simp)+

lemma add_files_fields [simp]:
  "cloningState (snd (add_files fl (fs, st))) = cloningState st"
  "authUrl (snd (add_files fl (fs, st))) = authUrl st"
  "cloningQueue (snd (add_files fl (fs, st))) = cloningQueue st"
  "visitedUrls (snd (add_files fl (fs, st))) = visitedUrls st"
  by (induction fl arbitrary: fs st; auto)+

text \<open>The answer of \<open>use_result\<close> for a response that is an authentication wall.\<close>

lemma use_result_auth_wall:
  "isAuthWall result \<Longrightarrow>
   fst (use_result resolve result job fs st) = Inr (fs, None, True)
   \<and> cloningState (snd (use_result resolve result job fs st)) = AWAITING_USER_INPUT
   \<and> authUrl (snd (use_result resolve result job fs st)) = url job
   \<and> fileSystem (snd (use_result resolve result job fs st)) = fileSystem st
   \<and> cloningQueue (snd (use_result resolve result job fs st)) = cloningQueue st"
  by (simp add: use_result_def Let_def)


lemma next_line_None: "CHR 0x0A \<notin> set b \<Longrightarrow> next_line b = None"
  by (induction b) auto

lemma drain_lines_no_newline:
  "CHR 0x0A \<notin> set b \<Longrightarrow> drain_lines parse resolve visited u b st = (False, b, st)"
  by (simp add: drain_lines.simps next_line_None)







lemma drain_wall:
  "drain_lines demo_parser echo_resolver visited u (wall_line @ [CHR 0x0A]) st
   = (True, [], (addLog (''AI Agent: '' @ [CHR 0x22] @ ''Please sign in.'' @ [CHR 0x22]) WARN st)
              \<lparr>authUrl := u, cloningState := AWAITING_USER_INPUT\<rparr>)"
  by (simp add: drain_lines.simps wall_line_def trim_def is_space_def handle_line_def
      demo_parser_def)

lemma wall_job:
  assumes "cloningState st = CLONING" and "cloningQueue st = job # rest"
    and "url job \<notin> set (visitedUrls st)" and "screenshot job = None"
  shows "cloningState (processQueue demo_parser echo_resolver wall_env st) = AWAITING_USER_INPUT
    \<and> cloningQueue (processQueue demo_parser echo_resolver wall_env st) = job # rest
    \<and> visitedUrls (processQueue demo_parser echo_resolver wall_env st)
        = visitedUrls st @ [url job]
    \<and> authUrl (processQueue demo_parser echo_resolver wall_env st) = url job
    \<and> \<lparr>message = ''Cloning page ('' @ show_nat (length (visitedUrls st) + 1) @ ''/5): ''
                    @ url job, log_type = SYSTEM\<rparr>
        \<in> set (agentLogs (processQueue demo_parser echo_resolver wall_env st))"
  using assms
  unfolding processQueue_def clone_job_def fetch_assets_def call_model_def read_stream_def Let_def
  by (simp add: wall_env_def page_env_def response_ok_def drain_wall set_add_def)

lemma skip_job:
  assumes "cloningState st = CLONING" and "cloningQueue st = job # rest"
    and "url job \<in> set (visitedUrls st)"
  shows "cloningState (processQueue parse resolve env st) = CLONING
    \<and> cloningQueue (processQueue parse resolve env st) = rest
    \<and> visitedUrls (processQueue parse resolve env st) = visitedUrls st"
  using assms by (simp add: processQueue_def)

lemma resume_job:
  assumes "cloningState st = AWAITING_USER_INPUT" and "n \<noteq> []"
  shows "cloningState (step parse resolve (ResumeCloning n) st) = CLONING
    \<and> cloningQueue (step parse resolve (ResumeCloning n) st)
        = cloningQueue st @ [\<lparr>url = n, screenshot = None\<rparr>]
    \<and> visitedUrls (step parse resolve (ResumeCloning n) st) = visitedUrls st"
  using assms by (simp add: handleResumeCloning_def)

lemma round_trip:
  assumes "cloningState st = AWAITING_USER_INPUT" and "cloningQueue st = [job]"
    and "url job \<in> set (visitedUrls st)" and "n \<noteq> []" and "n \<notin> set (visitedUrls st)"
  shows "cloningState (run demo_parser echo_resolver
            [ResumeCloning n, RunProcessQueue wall_env, RunProcessQueue wall_env] st)
          = AWAITING_USER_INPUT
    \<and> cloningQueue (run demo_parser echo_resolver
            [ResumeCloning n, RunProcessQueue wall_env, RunProcessQueue wall_env] st)
        = [\<lparr>url = n, screenshot = None\<rparr>]
    \<and> visitedUrls (run demo_parser echo_resolver
            [ResumeCloning n, RunProcessQueue wall_env, RunProcessQueue wall_env] st)
        = visitedUrls st @ [n]"
proof -
  let ?s1 = "step demo_parser echo_resolver (ResumeCloning n) st"
  let ?s2 = "processQueue demo_parser echo_resolver wall_env ?s1"
  let ?s3 = "processQueue demo_parser echo_resolver wall_env ?s2"
  have r1: "cloningState ?s1 = CLONING"
    "cloningQueue ?s1 = job # [\<lparr>url = n, screenshot = None\<rparr>]"
    "visitedUrls ?s1 = visitedUrls st"
    using resume_job [OF assms(1,4), of demo_parser echo_resolver] assms(2) by simp_all
  have r2: "cloningState ?s2 = CLONING" "cloningQueue ?s2 = [\<lparr>url = n, screenshot = None\<rparr>]"
    "visitedUrls ?s2 = visitedUrls st"
    using skip_job [OF r1(1,2), of demo_parser echo_resolver wall_env] assms(3) r1(3) by simp_all
  have r3: "cloningState ?s3 = AWAITING_USER_INPUT"
    "cloningQueue ?s3 = [\<lparr>url = n, screenshot = None\<rparr>]"
    "visitedUrls ?s3 = visitedUrls st @ [n]"
    using wall_job [OF r2(1,2)] assms(5) r2(3) by simp_all
  have "run demo_parser echo_resolver
            [ResumeCloning n, RunProcessQueue wall_env, RunProcessQueue wall_env] st = ?s3"
    by (simp add: run_def)
  then show ?thesis using r3 by simp
qed

lemma run_append: "run parse resolve (xs @ ys) st = run parse resolve ys (run parse resolve xs st)"
  by (simp add: run_def)


text \<open>The visited set never holds a URL twice.\<close>


lemma step_visited_distinct:
  assumes "distinct (visitedUrls st)"
  shows "distinct (visitedUrls (step parse resolve e st))"
proof (cases e)
  case (InitiateCloning rawUrl useScreenshot opens)
  then show ?thesis using assms by (auto simp: handleInitiateCloning_def Let_def)
next
  case (RunProcessQueue env)
  show ?thesis
    using processQueue_cases [of parse resolve env st]
  proof (elim disjE exE conjE)
    assume "processQueue parse resolve env st = st"
    then show ?thesis using assms RunProcessQueue by simp
  next
    fix job rest
    assume "processQueue parse resolve env st = st\<lparr>cloningQueue := rest\<rparr>"
    then show ?thesis using assms RunProcessQueue by simp
  next
    fix job rest
    assume n: "url job \<notin> set (visitedUrls st)"
      and k: "kept_by_job (processQueue parse resolve env st)
              = kept_by_job (send [PageFetch (url job)]
                               (st\<lparr>visitedUrls := visitedUrls st @ [url job]\<rparr>))"
    have "visitedUrls (processQueue parse resolve env st) = visitedUrls st @ [url job]"
      using kept_by_job_fields [OF k] by simp
    then show ?thesis using assms n RunProcessQueue by simp
  qed
qed (insert assms, auto simp: handleScreenshotReady_def handleResumeCloning_def cancelAuth_def
      handleMessage_def qualityTrigger_def qualityEffect_def autoFixEffect_def)

lemma run_visited_distinct:
  "distinct (visitedUrls st) \<Longrightarrow> distinct (visitedUrls (run parse resolve evs st))"
  unfolding run_def
  by (induction evs arbitrary: st) (auto simp: step_visited_distinct)

lemma visited_never_repeats:
  "distinct (visitedUrls (run parse resolve evs initial_state))"
  by (rule run_visited_distinct) (simp add: initial_state_def)

subsection \<open>Claims about the orchestrator\<close>


text \<open>
  C2.  Whatever events a session consists of, from the initial state on, the counter of
  fix attempts never exceeds the ceiling of 3.  And when the auto-fix effect runs with a
  non-empty list of console errors, the attempts used up (3 or more) and no fix in
  progress, it moves to \<open>ERROR\<close> without sending anything: the model is not called and
  the counter does not move.
\<close>

theorem fix_attempts_bounded:
  "fixAttempts (run parse resolve evs initial_state) \<le> MAX_FIX_ATTEMPTS
   \<and> (consoleErrors st \<noteq> [] \<and> fixAttempts st \<ge> MAX_FIX_ATTEMPTS \<and> cloningState st \<noteq> FIXING
        \<longrightarrow> cloningState (autoFixEffect response st) = ERROR
            \<and> requests (autoFixEffect response st) = requests st
            \<and> fixAttempts (autoFixEffect response st) = fixAttempts st)"
proof
  show "fixAttempts (run parse resolve evs initial_state) \<le> MAX_FIX_ATTEMPTS"
    by (rule run_fixAttempts) (simp add: initial_state_def)
  show "consoleErrors st \<noteq> [] \<and> fixAttempts st \<ge> MAX_FIX_ATTEMPTS \<and> cloningState st \<noteq> FIXING
        \<longrightarrow> cloningState (autoFixEffect response st) = ERROR
            \<and> requests (autoFixEffect response st) = requests st
            \<and> fixAttempts (autoFixEffect response st) = fixAttempts st"
    by (simp add: autoFixEffect_def)
qed

lemma three_fixes_run:
  "fixAttempts (run demo_parser echo_resolver three_fixes initial_state) = 3"
  "consoleErrors (run demo_parser echo_resolver three_fixes initial_state) = [''e4'']"
  "cloningState (run demo_parser echo_resolver three_fixes initial_state) = COMPLETED"
  "requests (run demo_parser echo_resolver three_fixes initial_state)
     = [PageFetch ''https://a.test/1'', ModelStream ''https://a.test/1'', ModelReview,
        ModelFix, ModelFix, ModelFix]"
  by (simp_all add: run_def three_fixes_def fix_answer_def initial_state_def
      handleInitiateCloning_def Let_def trim_def is_space_def has_http_scheme_def lower_char_def
      processQueue_def clone_job_def fetch_assets_def call_model_def read_stream_def
      page_env_def response_ok_def set_add_def qualityTrigger_def qualityEffect_def
      handleQualityCheck_def handleMessage_def autoFixEffect_def handleAutoFix_def
      MAX_FIX_ATTEMPTS_def addLog_def send_def)

theorem fix_attempts_bounded_witness:
  "fixAttempts (run demo_parser echo_resolver three_fixes initial_state) = MAX_FIX_ATTEMPTS
   \<and> consoleErrors (run demo_parser echo_resolver three_fixes initial_state) \<noteq> []
   \<and> cloningState (run demo_parser echo_resolver three_fixes initial_state) \<noteq> FIXING
   \<and> cloningState (autoFixEffect fix_answer
         (run demo_parser echo_resolver three_fixes initial_state)) = ERROR
   \<and> requests (autoFixEffect fix_answer
         (run demo_parser echo_resolver three_fixes initial_state))
       = [PageFetch ''https://a.test/1'', ModelStream ''https://a.test/1'', ModelReview,
          ModelFix, ModelFix, ModelFix]"
  using fix_attempts_bounded [where parse = demo_parser and resolve = echo_resolver
      and evs = three_fixes and response = fix_answer
      and st = "run demo_parser echo_resolver three_fixes initial_state"]
  by (simp add: three_fixes_run MAX_FIX_ATTEMPTS_def)

text \<open>
  C7.  A job whose page fetch answers with a status outside 200 to 299 fails hard: the
  state becomes \<open>ERROR\<close>, and the log gains, last, an error entry whose message carries
  the status in decimal.  Nothing but the page fetch was sent; the file tree and the
  queue are as before.
\<close>

theorem fetch_failure_is_fatal:
  assumes "cloningState st = CLONING" and "cloningQueue st = job # rest"
    and "url job \<notin> set (visitedUrls st)"
    and "page_fetch env = Response status body" and "\<not> response_ok status"
  shows "cloningState (processQueue parse resolve env st) = ERROR
    \<and> agentLogs (processQueue parse resolve env st)
        = agentLogs st
          @ [\<lparr>message = ''Cloning page ('' @ show_nat (length (visitedUrls st) + 1) @ ''/5): ''
                         @ url job, log_type = SYSTEM\<rparr>,
             \<lparr>message = ''Fetching source code...'', log_type = INFO\<rparr>,
             \<lparr>message = ''An error occurred: Failed to fetch URL '' @ url job @ ''. Status: ''
                         @ show_nat status @ ''.'', log_type = LOG_ERROR\<rparr>]
    \<and> requests (processQueue parse resolve env st) = requests st @ [PageFetch (url job)]
    \<and> fileSystem (processQueue parse resolve env st) = fileSystem st
    \<and> cloningQueue (processQueue parse resolve env st) = cloningQueue st"
  using assms
  by (simp add: processQueue_def clone_job_def Let_def set_add_def)

lemma show_nat_404: "show_nat 404 = ''404''"
  by code_simp

lemma show_nat_1: "show_nat (Suc 0) = ''1''"
  by code_simp

theorem fetch_failure_is_fatal_witness:
  "cloningState (processQueue (\<lambda>l. None) (\<lambda>u b. None)
       \<lparr>page_fetch = Response 404 (Inr ''Not Found''), asset_scan = Inr [],
        encode_screenshot = None, dispatch = None, chunks = [], stream_failure = None\<rparr>
       (initial_state\<lparr>cloningState := CLONING,
          cloningQueue := [\<lparr>url = ''https://example.com'', screenshot = None\<rparr>]\<rparr>)) = ERROR
   \<and> agentLogs (processQueue (\<lambda>l. None) (\<lambda>u b. None)
       \<lparr>page_fetch = Response 404 (Inr ''Not Found''), asset_scan = Inr [],
        encode_screenshot = None, dispatch = None, chunks = [], stream_failure = None\<rparr>
       (initial_state\<lparr>cloningState := CLONING,
          cloningQueue := [\<lparr>url = ''https://example.com'', screenshot = None\<rparr>]\<rparr>))
      = [\<lparr>message = ''Cloning page (1/5): https://example.com'', log_type = SYSTEM\<rparr>,
         \<lparr>message = ''Fetching source code...'', log_type = INFO\<rparr>,
         \<lparr>message = ''An error occurred: Failed to fetch URL https://example.com. Status: 404.'',
          log_type = LOG_ERROR\<rparr>]"
  using fetch_failure_is_fatal [of
      "initial_state\<lparr>cloningState := CLONING,
          cloningQueue := [\<lparr>url = ''https://example.com'', screenshot = None\<rparr>]\<rparr>"
      "\<lparr>url = ''https://example.com'', screenshot = None\<rparr>" "[]"
      "\<lparr>page_fetch = Response 404 (Inr ''Not Found''), asset_scan = Inr [],
        encode_screenshot = None, dispatch = None, chunks = [], stream_failure = None\<rparr>"
      404 "Inr ''Not Found''" "\<lambda>l. None" "\<lambda>u b. None"]
  by (simp add: initial_state_def response_ok_def show_nat_404 show_nat_1)




text \<open>
  C4.  In batch mode, when a job is processed (it is new, fewer than 5 pages are visited,
  the page is fetched, the model answers) and the response has \<^verbatim>\<open>isAuthWall\<close> set, the state
  becomes \<open>AWAITING_USER_INPUT\<close>, \<^verbatim>\<open>authUrl\<close> is the URL of the job, and the file tree is
  the one from before: no file of the response is merged.
\<close>

theorem batch_auth_wall_parks_the_job:
  assumes "cloningState st = CLONING" and "cloningQueue st = job # rest"
    and "url job \<notin> set (visitedUrls st)" and "length (visitedUrls st) < MAX_PAGES"
    and "b_page_fetch env = Response status (Inr html)" and "response_ok status"
    and "b_asset_scan env = Inr assets"
    and "screenshot job \<noteq> None \<longrightarrow> b_encode_screenshot env = None"
    and "b_answer env = Parsed result" and "isAuthWall result"
  shows "cloningState (processQueue_batch resolve env st) = AWAITING_USER_INPUT
    \<and> authUrl (processQueue_batch resolve env st) = url job
    \<and> fileSystem (processQueue_batch resolve env st) = fileSystem st"
proof (cases "screenshot job")
  case None
  then show ?thesis using assms
    unfolding processQueue_batch_def clonePage_def clone_assets_def use_result_def Let_def
    by simp
next
  case (Some img)
  then show ?thesis using assms
    unfolding processQueue_batch_def clonePage_def clone_assets_def use_result_def Let_def
    by simp
qed

theorem batch_auth_wall_parks_the_job_witness:
  "cloningState (processQueue_batch echo_resolver
      (batch_page_env \<lparr>thoughtProcess = ''login form'', isAuthWall = True,
         messageForUser = ''Please sign in.'', files = [(''public/index.html'', ''<form>'')],
         backendFiles = [], nextPageUrl = None\<rparr>)
      (cloning_state [''https://a.test/login''] [])) = AWAITING_USER_INPUT
   \<and> authUrl (processQueue_batch echo_resolver
      (batch_page_env \<lparr>thoughtProcess = ''login form'', isAuthWall = True,
         messageForUser = ''Please sign in.'', files = [(''public/index.html'', ''<form>'')],
         backendFiles = [], nextPageUrl = None\<rparr>)
      (cloning_state [''https://a.test/login''] [])) = ''https://a.test/login''
   \<and> fileSystem (processQueue_batch echo_resolver
      (batch_page_env \<lparr>thoughtProcess = ''login form'', isAuthWall = True,
         messageForUser = ''Please sign in.'', files = [(''public/index.html'', ''<form>'')],
         backendFiles = [], nextPageUrl = None\<rparr>)
      (cloning_state [''https://a.test/login''] [])) = []"
  using batch_auth_wall_parks_the_job [where st = "cloning_state [''https://a.test/login''] []"
      and job = "job_of ''https://a.test/login''" and rest = "[]"
      and env = "batch_page_env \<lparr>thoughtProcess = ''login form'', isAuthWall = True,
         messageForUser = ''Please sign in.'', files = [(''public/index.html'', ''<form>'')],
         backendFiles = [], nextPageUrl = None\<rparr>"
      and status = 200 and html = "''<html></html>''" and assets = "[]"
      and result = "\<lparr>thoughtProcess = ''login form'', isAuthWall = True,
         messageForUser = ''Please sign in.'', files = [(''public/index.html'', ''<form>'')],
         backendFiles = [], nextPageUrl = None\<rparr>"
      and resolve = echo_resolver]
  by (simp add: cloning_state_def initial_state_def job_of_def batch_page_env_def
      MAX_PAGES_def response_ok_def)



text \<open>
  The same authentication wall when its line is the last text of the stream and is not
  terminated: the record is handled from the buffer that is left, the return value of the
  handler is dropped, and the job is taken off the queue.
\<close>

lemma wall_job_unterminated:
  assumes "cloningState st = CLONING" and "cloningQueue st = job # rest"
    and "url job \<notin> set (visitedUrls st)" and "screenshot job = None"
  shows "cloningState (processQueue demo_parser echo_resolver (page_env [wall_line]) st)
           = AWAITING_USER_INPUT
    \<and> cloningQueue (processQueue demo_parser echo_resolver (page_env [wall_line]) st) = rest
    \<and> authUrl (processQueue demo_parser echo_resolver (page_env [wall_line]) st) = url job"
proof -
  have n: "CHR 0x0A \<notin> set wall_line" by (simp add: wall_line_def)
  have t: "trim wall_line = wall_line" by (simp add: wall_line_def trim_def is_space_def)
  have p: "demo_parser wall_line = Some (AuthWall ''Please sign in.'')"
    by (simp add: wall_line_def demo_parser_def)
  have w: "wall_line \<noteq> []" by (simp add: wall_line_def)
  show ?thesis using assms
    unfolding processQueue_def clone_job_def fetch_assets_def call_model_def read_stream_def
      Let_def
    by (simp add: page_env_def response_ok_def drain_lines_no_newline [OF n] t p w
        handle_line_def set_add_def)
qed

lemma initiate_example:
  "cloningState (handleInitiateCloning ''a.test/1'' False True initial_state) = CLONING"
  "cloningQueue (handleInitiateCloning ''a.test/1'' False True initial_state)
     = [\<lparr>url = ''https://a.test/1'', screenshot = None\<rparr>]"
  "visitedUrls (handleInitiateCloning ''a.test/1'' False True initial_state) = []"
  by (simp_all add: handleInitiateCloning_def initial_state_def Let_def trim_def is_space_def
      has_http_scheme_def lower_char_def)

lemma show_nat_6: "show_nat (Suc (Suc (Suc (Suc (Suc (Suc 0)))))) = ''6''"
  by code_simp

text \<open>
  C1, evaluated where it fails.  In the session \<open>six_walls\<close> the user starts a clone, each
  page turns out to be an authentication wall, and the user resumes with the next URL
  five times.  The sixth URL is marked visited and processed like the others: the visited
  set has six members, the log says \<^verbatim>\<open>Cloning page (6/5)\<close>, and the sixth page is the one
  the application is waiting on.  (That the set never holds a URL twice is
  \<open>visited_never_repeats\<close> above.)
\<close>

theorem sixth_page_is_processed:
  "visitedUrls (run demo_parser echo_resolver six_walls initial_state)
     = [''https://a.test/1'', ''https://a.test/2'', ''https://a.test/3'', ''https://a.test/4'',
        ''https://a.test/5'', ''https://a.test/6'']
   \<and> length (visitedUrls (run demo_parser echo_resolver six_walls initial_state)) = 6
   \<and> authUrl (run demo_parser echo_resolver six_walls initial_state) = ''https://a.test/6''
   \<and> \<lparr>message = ''Cloning page (6/5): https://a.test/6'', log_type = SYSTEM\<rparr>
       \<in> set (agentLogs (run demo_parser echo_resolver six_walls initial_state))"
proof -
  let ?run = "run demo_parser echo_resolver"
  let ?w = "RunProcessQueue wall_env"
  define s0 where "s0 = ?run [InitiateCloning ''a.test/1'' False True, ?w] initial_state"
  define s1 where "s1 = ?run [ResumeCloning ''https://a.test/2'', ?w, ?w] s0"
  define s2 where "s2 = ?run [ResumeCloning ''https://a.test/3'', ?w, ?w] s1"
  define s3 where "s3 = ?run [ResumeCloning ''https://a.test/4'', ?w, ?w] s2"
  define s4 where "s4 = ?run [ResumeCloning ''https://a.test/5'', ?w, ?w] s3"
  define s5 where "s5 = ?run [ResumeCloning ''https://a.test/6'', ?w, ?w] s4"
  note i = initiate_example
  have a0: "cloningState s0 = AWAITING_USER_INPUT"
    "cloningQueue s0 = [\<lparr>url = ''https://a.test/1'', screenshot = None\<rparr>]"
    "visitedUrls s0 = [''https://a.test/1'']"
    using wall_job [OF i(1,2)] i(3) by (simp_all add: s0_def run_def)
  have a1: "cloningState s1 = AWAITING_USER_INPUT"
    "cloningQueue s1 = [\<lparr>url = ''https://a.test/2'', screenshot = None\<rparr>]"
    "visitedUrls s1 = [''https://a.test/1'', ''https://a.test/2'']"
    using round_trip [OF a0(1,2), of "''https://a.test/2''"] a0(3) by (simp_all add: s1_def)
  have a2: "cloningState s2 = AWAITING_USER_INPUT"
    "cloningQueue s2 = [\<lparr>url = ''https://a.test/3'', screenshot = None\<rparr>]"
    "visitedUrls s2 = [''https://a.test/1'', ''https://a.test/2'', ''https://a.test/3'']"
    using round_trip [OF a1(1,2), of "''https://a.test/3''"] a1(3) by (simp_all add: s2_def)
  have a3: "cloningState s3 = AWAITING_USER_INPUT"
    "cloningQueue s3 = [\<lparr>url = ''https://a.test/4'', screenshot = None\<rparr>]"
    "visitedUrls s3 = [''https://a.test/1'', ''https://a.test/2'', ''https://a.test/3'',
        ''https://a.test/4'']"
    using round_trip [OF a2(1,2), of "''https://a.test/4''"] a2(3) by (simp_all add: s3_def)
  have a4: "cloningState s4 = AWAITING_USER_INPUT"
    "cloningQueue s4 = [\<lparr>url = ''https://a.test/5'', screenshot = None\<rparr>]"
    "visitedUrls s4 = [''https://a.test/1'', ''https://a.test/2'', ''https://a.test/3'',
        ''https://a.test/4'', ''https://a.test/5'']"
    using round_trip [OF a3(1,2), of "''https://a.test/5''"] a3(3) by (simp_all add: s4_def)
  have a5: "visitedUrls s5 = [''https://a.test/1'', ''https://a.test/2'', ''https://a.test/3'',
        ''https://a.test/4'', ''https://a.test/5'', ''https://a.test/6'']"
    using round_trip [OF a4(1,2), of "''https://a.test/6''"] a4(3) by (simp add: s5_def)
  have s5: "run demo_parser echo_resolver six_walls initial_state = s5"
    unfolding s5_def s4_def s3_def s2_def s1_def s0_def six_walls_def
    by (simp only: run_append [symmetric] append_Cons append_Nil)
  let ?t1 = "step demo_parser echo_resolver (ResumeCloning ''https://a.test/6'') s4"
  let ?t2 = "processQueue demo_parser echo_resolver wall_env ?t1"
  let ?t3 = "processQueue demo_parser echo_resolver wall_env ?t2"
  have t1: "cloningState ?t1 = CLONING"
    "cloningQueue ?t1 = \<lparr>url = ''https://a.test/5'', screenshot = None\<rparr>
                        # [\<lparr>url = ''https://a.test/6'', screenshot = None\<rparr>]"
    "visitedUrls ?t1 = visitedUrls s4"
    using resume_job [OF a4(1), of "''https://a.test/6''" demo_parser echo_resolver] a4(2)
    by simp_all
  have t2: "cloningState ?t2 = CLONING"
    "cloningQueue ?t2 = [\<lparr>url = ''https://a.test/6'', screenshot = None\<rparr>]"
    "visitedUrls ?t2 = visitedUrls s4"
    using skip_job [OF t1(1,2), of demo_parser echo_resolver wall_env] t1(3) a4(3) by simp_all
  have t3: "authUrl ?t3 = ''https://a.test/6''"
    "\<lparr>message = ''Cloning page (6/5): https://a.test/6'', log_type = SYSTEM\<rparr>
       \<in> set (agentLogs ?t3)"
    using wall_job [OF t2(1,2)] t2(3) a4(3) by (simp_all add: show_nat_6)
  have "s5 = ?t3" by (simp add: s5_def run_def)
  then show ?thesis using a5 t3 by (simp add: s5)
qed

text \<open>
  C5, evaluated where it fails.  The stream of the first page is one authentication wall
  record.  When the line is the last text of the stream and has no line feed after it,
  the application waits for the user, on the right URL, but the job has been dropped
  from the queue; when the line is terminated, the job stays.
\<close>

theorem unterminated_auth_wall_drops_the_job:
  "cloningState (run demo_parser echo_resolver
       [InitiateCloning ''a.test/1'' False True, RunProcessQueue (page_env [wall_line])]
       initial_state) = AWAITING_USER_INPUT
   \<and> authUrl (run demo_parser echo_resolver
       [InitiateCloning ''a.test/1'' False True, RunProcessQueue (page_env [wall_line])]
       initial_state) = ''https://a.test/1''
   \<and> cloningQueue (run demo_parser echo_resolver
       [InitiateCloning ''a.test/1'' False True, RunProcessQueue (page_env [wall_line])]
       initial_state) = []
   \<and> cloningQueue (run demo_parser echo_resolver
       [InitiateCloning ''a.test/1'' False True, RunProcessQueue wall_env]
       initial_state) = [job_of ''https://a.test/1'']"
  using wall_job_unterminated [OF initiate_example(1,2)] wall_job [OF initiate_example(1,2)]
    initiate_example(3)
  by (simp add: run_def job_of_def)

end
